theory Spec2Isabelle
  imports Main "HOL-Library.AList" "HOL-Library.Sublist" "HOL-Library.Multiset"
begin

section \<open>Python values\<close>

text \<open>
  Articles and analyses are what \<^verbatim>\<open>json.load\<close> and \<^verbatim>\<open>json.loads\<close> return:
  dictionaries, lists, strings, integers, booleans and \<^verbatim>\<open>None\<close>. A dictionary is an
  association list in insertion order; its keys are distinct, as in a Python dict, and
  \<open>AList.update\<close> is item assignment (replace in place, or append a new key at the end).
  Numbers are the integers: the data model gives \<^verbatim>\<open>confidence_score\<close> as an integer.
  A string is a list of characters with code points below 256.
\<close>

datatype json =
    JNull
  | JBool bool
  | JInt int
  | JStr string
  | JList "json list"
  | JObj "(string \<times> json) list"

datatype exc_kind = TypeError | AttributeError | KeyError | ValueError | OtherError

text \<open>An exception is its class and \<^verbatim>\<open>str(e)\<close>. \<open>OtherError\<close> stands for every
  exception class of a library outside the repository (transport and parse errors). The
  messages of the built-in errors are those of CPython 3.11.\<close>

datatype exn = Exn exc_kind string

fun str_exn :: "exn \<Rightarrow> string" where
  "str_exn (Exn k m) = m"

definition quoted :: "string \<Rightarrow> string" where
  "quoted s = CHR 0x27 # s @ [CHR 0x27]"

fun type_name :: "json \<Rightarrow> string" where
  "type_name JNull = ''NoneType''"
| "type_name (JBool b) = ''bool''"
| "type_name (JInt n) = ''int''"
| "type_name (JStr s) = ''str''"
| "type_name (JList xs) = ''list''"
| "type_name (JObj kvs) = ''dict''"

text \<open>Truth value of an object, as \<^verbatim>\<open>not x\<close> and \<^verbatim>\<open>if x:\<close> read it.\<close>

fun truthy :: "json \<Rightarrow> bool" where
  "truthy JNull = False"
| "truthy (JBool b) = b"
| "truthy (JInt n) = (n \<noteq> 0)"
| "truthy (JStr s) = (s \<noteq> [])"
| "truthy (JList xs) = (xs \<noteq> [])"
| "truthy (JObj kvs) = (kvs \<noteq> [])"

text \<open>\<^verbatim>\<open>d.get(k, default)\<close>: only a dict has the method.\<close>

fun py_get :: "json \<Rightarrow> string \<Rightarrow> json \<Rightarrow> exn + json" where
  "py_get (JObj kvs) k dflt = Inr (case map_of kvs k of None \<Rightarrow> dflt | Some v \<Rightarrow> v)"
| "py_get v k dflt =
     Inl (Exn AttributeError (quoted (type_name v) @ '' object has no attribute '' @ quoted ''get''))"

text \<open>\<^verbatim>\<open>d[k]\<close> with a string key.\<close>

fun py_getitem :: "json \<Rightarrow> string \<Rightarrow> exn + json" where
  "py_getitem (JObj kvs) k =
     (case map_of kvs k of None \<Rightarrow> Inl (Exn KeyError (quoted k)) | Some v \<Rightarrow> Inr v)"
| "py_getitem (JList xs) k = Inl (Exn TypeError ''list indices must be integers or slices, not str'')"
| "py_getitem (JStr s) k = Inl (Exn TypeError (''string indices must be integers, not '' @ quoted ''str''))"
| "py_getitem v k = Inl (Exn TypeError (quoted (type_name v) @ '' object is not subscriptable''))"

text \<open>\<^verbatim>\<open>d[k] = v\<close> with a string key.\<close>

fun py_setitem :: "json \<Rightarrow> string \<Rightarrow> json \<Rightarrow> exn + json" where
  "py_setitem (JObj kvs) k v = Inr (JObj (AList.update k v kvs))"
| "py_setitem (JList xs) k v = Inl (Exn TypeError ''list indices must be integers or slices, not str'')"
| "py_setitem d k v =
     Inl (Exn TypeError (quoted (type_name d) @ '' object does not support item assignment''))"

text \<open>\<^verbatim>\<open>x[:50]\<close>: strings and lists can be sliced.\<close>

fun py_slice50 :: "json \<Rightarrow> exn + json" where
  "py_slice50 (JStr s) = Inr (JStr (take 50 s))"
| "py_slice50 (JList xs) = Inr (JList (take 50 xs))"
| "py_slice50 (JObj kvs) = Inl (Exn TypeError (''unhashable type: '' @ quoted ''slice''))"
| "py_slice50 v = Inl (Exn TypeError (quoted (type_name v) @ '' object is not subscriptable''))"

fun is_substring :: "string \<Rightarrow> string \<Rightarrow> bool" where
  "is_substring k [] = (k = [])"
| "is_substring k (c # cs) = (take (length k) (c # cs) = k \<or> is_substring k cs)"

text \<open>\<^verbatim>\<open>k in x\<close> for a string \<open>k\<close>: a key of a dict, an element of a list, a substring
  of a string.\<close>

fun py_contains :: "string \<Rightarrow> json \<Rightarrow> exn + bool" where
  "py_contains k (JObj kvs) = Inr (map_of kvs k \<noteq> None)"
| "py_contains k (JList xs) = Inr (JStr k \<in> set xs)"
| "py_contains k (JStr s) = Inr (is_substring k s)"
| "py_contains k v =
     Inl (Exn TypeError (''argument of type '' @ quoted (type_name v) @ '' is not iterable''))"

text \<open>\<^verbatim>\<open>x < n\<close> for an integer \<open>n\<close>; \<^verbatim>\<open>bool\<close> is a subclass of \<^verbatim>\<open>int\<close>.\<close>

fun py_lt_int :: "json \<Rightarrow> int \<Rightarrow> exn + bool" where
  "py_lt_int (JInt m) n = Inr (m < n)"
| "py_lt_int (JBool b) n = Inr ((if b then 1 else 0) < n)"
| "py_lt_int v n =
     Inl (Exn TypeError (quoted ''<'' @ '' not supported between instances of ''
            @ quoted (type_name v) @ '' and '' @ quoted ''int''))"

text \<open>\<^verbatim>\<open>for x in v\<close>: the elements of a list, the characters of a string, the keys of a
  dict.\<close>

fun py_iter :: "json \<Rightarrow> exn + json list" where
  "py_iter (JList xs) = Inr xs"
| "py_iter (JStr s) = Inr (map (\<lambda>c. JStr [c]) s)"
| "py_iter (JObj kvs) = Inr (map (\<lambda>kv. JStr (fst kv)) kvs)"
| "py_iter v = Inl (Exn TypeError (quoted (type_name v) @ '' object is not iterable''))"

fun py_len :: "json \<Rightarrow> exn + nat" where
  "py_len (JList xs) = Inr (length xs)"
| "py_len (JStr s) = Inr (length s)"
| "py_len (JObj kvs) = Inr (length kvs)"
| "py_len v = Inl (Exn TypeError (''object of type '' @ quoted (type_name v) @ '' has no len()''))"

text \<open>The key under which a set stores a value: lists and dicts are unhashable, and
  \<^verbatim>\<open>True == 1\<close>, \<^verbatim>\<open>False == 0\<close> with equal hashes.\<close>

fun py_hash_key :: "json \<Rightarrow> exn + json" where
  "py_hash_key (JList xs) = Inl (Exn TypeError (''unhashable type: '' @ quoted ''list''))"
| "py_hash_key (JObj kvs) = Inl (Exn TypeError (''unhashable type: '' @ quoted ''dict''))"
| "py_hash_key (JBool b) = Inr (JInt (if b then 1 else 0))"
| "py_hash_key v = Inr v"

section \<open>Character classes of Python's \<^verbatim>\<open>re\<close> and \<^verbatim>\<open>str\<close>\<close>

text \<open>On code points below 256: \<^verbatim>\<open>\s\<close> and \<^verbatim>\<open>str.isspace\<close> agree, \<^verbatim>\<open>\d\<close> is the ASCII digits,
  \<^verbatim>\<open>\w\<close> is the alphanumeric characters and the underscore.\<close>

definition is_space :: "char \<Rightarrow> bool" where
  "is_space c = (let n = (of_char c :: nat) in
     (9 \<le> n \<and> n \<le> 13) \<or> (28 \<le> n \<and> n \<le> 32) \<or> n = 133 \<or> n = 160)"

definition is_digit :: "char \<Rightarrow> bool" where
  "is_digit c = (let n = (of_char c :: nat) in 48 \<le> n \<and> n \<le> 57)"

definition is_upper :: "char \<Rightarrow> bool" where
  "is_upper c = (let n = (of_char c :: nat) in 65 \<le> n \<and> n \<le> 90)"

definition is_word :: "char \<Rightarrow> bool" where
  "is_word c = (let n = (of_char c :: nat) in
     (48 \<le> n \<and> n \<le> 57) \<or> (65 \<le> n \<and> n \<le> 90) \<or> n = 95 \<or> (97 \<le> n \<and> n \<le> 122)
     \<or> n = 170 \<or> n = 178 \<or> n = 179 \<or> n = 181 \<or> n = 185 \<or> n = 186
     \<or> (188 \<le> n \<and> n \<le> 190) \<or> (192 \<le> n \<and> n \<le> 214)
     \<or> (216 \<le> n \<and> n \<le> 246) \<or> (248 \<le> n \<and> n \<le> 255))"

text \<open>\<^verbatim>\<open>s.strip()\<close>\<close>

definition py_strip :: "string \<Rightarrow> string" where
  "py_strip s = rev (dropWhile is_space (rev (dropWhile is_space s)))"

text \<open>\<^verbatim>\<open>s.replace(old, new)\<close>: the occurrences of \<open>old\<close> from left to right, without
  overlap; an empty \<open>old\<close> matches before every character and at the end.\<close>

function replace_from :: "string \<Rightarrow> string \<Rightarrow> string \<Rightarrow> string" where
  "replace_from old new [] = []"
| "replace_from old new (c # cs) =
     (if old \<noteq> [] \<and> take (length old) (c # cs) = old
      then new @ replace_from old new (drop (length old) (c # cs))
      else c # replace_from old new cs)"
  by pat_completeness auto
termination
  by (relation "measure (\<lambda>(old, new, s). length s)") (auto simp: Suc_le_eq)

definition py_replace :: "string \<Rightarrow> string \<Rightarrow> string \<Rightarrow> string" where
  "py_replace s old new =
     (if old = [] then new @ concat (map (\<lambda>c. c # new) s) else replace_from old new s)"

section \<open>preprocessor.py\<close>

text \<open>
  \<^verbatim>\<open>re.sub(r'\s*\[\+\d+\s*chars\]\s*$', '', text)\<close>. The classes that follow one another
  in the pattern are disjoint (white space, \<^verbatim>\<open>[\<close>, digits, \<^verbatim>\<open>c\<close>), so a match from a
  given position is found without backtracking, and \<^verbatim>\<open>$\<close> holds only once the last
  \<^verbatim>\<open>\s*\<close> has reached the end of the text. \<open>marker_tail s\<close> says that the whole of
  \<open>s\<close> matches the pattern; the substitution cuts the text at the leftmost position from
  which it does.
\<close>

definition marker_tail :: "string \<Rightarrow> bool" where
  "marker_tail s =
     (case dropWhile is_space s of
        c1 # c2 # r1 \<Rightarrow>
          c1 = CHR ''['' \<and> c2 = CHR ''+'' \<and> takeWhile is_digit r1 \<noteq> [] \<and>
          (let r3 = dropWhile is_space (dropWhile is_digit r1)
           in take 6 r3 = ''chars]'' \<and> dropWhile is_space (drop 6 r3) = [])
      | _ \<Rightarrow> False)"

fun strip_marker :: "string \<Rightarrow> string" where
  "strip_marker [] = []"
| "strip_marker (c # cs) = (if marker_tail (c # cs) then [] else c # strip_marker cs)"

text \<open>\<^verbatim>\<open>re.sub(r'\s+', ' ', text)\<close>\<close>

function collapse_ws :: "string \<Rightarrow> string" where
  "collapse_ws [] = []"
| "collapse_ws (c # cs) =
     (if is_space c then CHR '' '' # collapse_ws (dropWhile is_space cs)
      else c # collapse_ws cs)"
  by pat_completeness auto
termination
  by (relation "measure length") (auto simp: length_dropWhile_le less_Suc_eq_le)

definition clean_article_content :: "string \<Rightarrow> string" where
  "clean_article_content text = py_strip (collapse_ws (strip_marker text))"

text \<open>
  The loop body of \<^verbatim>\<open>preprocess_articles\<close>: \<open>None\<close> is \<^verbatim>\<open>continue\<close> or a text that is
  empty after cleaning, \<open>Some a\<close> the article appended. \<^verbatim>\<open>article['content']\<close> is read
  only after \<^verbatim>\<open>article.get('content')\<close> was truthy, so it is that same value.
\<close>

definition preprocess_article :: "json \<Rightarrow> exn + json option" where
  "preprocess_article article =
     (case py_get article ''content'' JNull of
        Inl e \<Rightarrow> Inl e
      | Inr content \<Rightarrow>
          if \<not> truthy content then Inr None
          else (case content of
                  JStr text \<Rightarrow>
                    (let cleaned_content = clean_article_content text
                     in if cleaned_content \<noteq> []
                        then (case py_setitem article ''cleaned_content'' (JStr cleaned_content) of
                                Inl e \<Rightarrow> Inl e
                              | Inr article' \<Rightarrow> Inr (Some article'))
                        else Inr None)
                | _ \<Rightarrow> Inr None))"

fun preprocess_loop :: "json list \<Rightarrow> json list \<Rightarrow> exn + json list" where
  "preprocess_loop [] processed_articles = Inr processed_articles"
| "preprocess_loop (article # articles) processed_articles =
     (case preprocess_article article of
        Inl e \<Rightarrow> Inl e
      | Inr None \<Rightarrow> preprocess_loop articles processed_articles
      | Inr (Some article') \<Rightarrow> preprocess_loop articles (processed_articles @ [article']))"

definition preprocess_articles :: "json list \<Rightarrow> exn + json list" where
  "preprocess_articles articles = preprocess_loop articles []"

section \<open>dashboard.py\<close>

subsection \<open>\<^verbatim>\<open>re.findall(r'\b[A-Z]{1,5}\b', entity)\<close>\<close>

text \<open>
  \<open>word_boundary prev rest\<close> is \<^verbatim>\<open>\b\<close> at the position whose left neighbour is \<open>prev\<close>
  (\<open>None\<close> at the start of the text) and whose right part is \<open>rest\<close>. From a position,
  \<^verbatim>\<open>[A-Z]{1,5}\<close> first takes as many capitals as it can, up to five, and gives them back
  one at a time until \<^verbatim>\<open>\b\<close> holds behind it. The scan resumes behind a match, or one
  character further where there is none.
\<close>

definition word_boundary :: "char option \<Rightarrow> string \<Rightarrow> bool" where
  "word_boundary prev rest =
     ((case prev of None \<Rightarrow> False | Some c \<Rightarrow> is_word c)
        \<noteq> (case rest of [] \<Rightarrow> False | c # cs \<Rightarrow> is_word c))"

fun backtrack :: "string \<Rightarrow> nat \<Rightarrow> nat option" where
  "backtrack rest 0 = None"
| "backtrack rest (Suc k) =
     (if word_boundary (Some (rest ! k)) (drop (Suc k) rest) then Some (Suc k)
      else backtrack rest k)"

definition match_ticker :: "char option \<Rightarrow> string \<Rightarrow> nat option" where
  "match_ticker prev rest =
     (if word_boundary prev rest
      then backtrack rest (min 5 (length (takeWhile is_upper rest)))
      else None)"

function findall_ticker :: "char option \<Rightarrow> string \<Rightarrow> string list" where
  "findall_ticker prev [] = []"
| "findall_ticker prev (c # cs) =
     (case match_ticker prev (c # cs) of
        None \<Rightarrow> findall_ticker (Some c) cs
      | Some k \<Rightarrow> take k (c # cs) # findall_ticker (Some ((c # cs) ! (k - 1))) (drop k (c # cs)))"
  by pat_completeness auto
termination
proof (relation "measure (\<lambda>(prev, s). length s)")
  show "wf (measure (\<lambda>(prev, s). length s))" by simp
next
  fix prev :: "char option" and c :: char and cs :: string
  show "((Some c, cs), (prev, c # cs)) \<in> measure (\<lambda>(prev, s). length s)" by simp
next
  fix prev :: "char option" and c :: char and cs :: string and k :: nat
  assume m: "match_ticker prev (c # cs) = Some k"
  have "0 < k" if "backtrack (c # cs) n = Some k" for n
    using that by (induction n) (auto split: if_splits)
  with m have "0 < k" by (auto simp: match_ticker_def split: if_splits)
  then show "((Some ((c # cs) ! (k - 1)), drop k (c # cs)), (prev, c # cs))
               \<in> measure (\<lambda>(prev, s). length s)" by simp
qed

definition potential_tickers :: "string \<Rightarrow> string list" where
  "potential_tickers entity = findall_ticker None entity"

subsection \<open>\<^verbatim>\<open>extract_valid_signals\<close>\<close>

text \<open>The registry \<^verbatim>\<open>VALID_TICKERS\<close> is a set of strings loaded when the module is
  imported; it is a parameter here.\<close>

definition entity_signals :: "string set \<Rightarrow> string \<Rightarrow> json \<Rightarrow> (string \<times> string) list" where
  "entity_signals valid_tickers sentiment entity =
     (case entity of
        JStr s \<Rightarrow> map (\<lambda>ticker. (ticker, sentiment))
                    (filter (\<lambda>ticker. ticker \<in> valid_tickers) (potential_tickers s))
      | _ \<Rightarrow> [])"

text \<open>The signals one article appends; \<open>Inr []\<close> is each \<^verbatim>\<open>continue\<close>.\<close>

definition article_signals ::
  "string set \<Rightarrow> int \<Rightarrow> json \<Rightarrow> exn + (string \<times> string) list" where
  "article_signals valid_tickers confidence_threshold article =
     (case py_get article ''analysis'' JNull of
        Inl e \<Rightarrow> Inl e
      | Inr analysis \<Rightarrow>
     if \<not> truthy analysis then Inr [] else
     (case py_contains ''error'' analysis of
        Inl e \<Rightarrow> Inl e
      | Inr has_error \<Rightarrow>
     if has_error then Inr [] else
     (case py_get analysis ''confidence_score'' (JInt 0) of
        Inl e \<Rightarrow> Inl e
      | Inr score \<Rightarrow>
     (case py_lt_int score confidence_threshold of
        Inl e \<Rightarrow> Inl e
      | Inr below \<Rightarrow>
     if below then Inr [] else
     (case py_get analysis ''sentiment'' JNull of
        Inl e \<Rightarrow> Inl e
      | Inr sentiment \<Rightarrow>
     (case (if sentiment = JStr ''Positive'' then Some ''Positive''
            else if sentiment = JStr ''Negative'' then Some ''Negative'' else None) of
        None \<Rightarrow> Inr []
      | Some direction \<Rightarrow>
     (case py_get analysis ''affected_entities'' (JList []) of
        Inl e \<Rightarrow> Inl e
      | Inr entities \<Rightarrow>
     (case py_iter entities of
        Inl e \<Rightarrow> Inl e
      | Inr es \<Rightarrow> Inr (concat (map (entity_signals valid_tickers direction) es))))))))))"

fun signals_loop ::
  "string set \<Rightarrow> int \<Rightarrow> json list \<Rightarrow> (string \<times> string) list \<Rightarrow> exn + (string \<times> string) list" where
  "signals_loop valid_tickers confidence_threshold [] signals = Inr signals"
| "signals_loop valid_tickers confidence_threshold (article # articles) signals =
     (case article_signals valid_tickers confidence_threshold article of
        Inl e \<Rightarrow> Inl e
      | Inr new \<Rightarrow> signals_loop valid_tickers confidence_threshold articles (signals @ new))"

definition extract_valid_signals ::
  "string set \<Rightarrow> json list \<Rightarrow> int \<Rightarrow> exn + (string \<times> string) list" where
  "extract_valid_signals valid_tickers articles confidence_threshold =
     signals_loop valid_tickers confidence_threshold articles []"

subsection \<open>\<^verbatim>\<open>score_tickers\<close>\<close>

record scores =
  positive :: int
  negative :: int

record scored = scores +
  net_score :: int

text \<open>\<^verbatim>\<open>ticker_scores[ticker]\<close> on the \<^verbatim>\<open>defaultdict\<close>: a missing key reads as the
  default \<^verbatim>\<open>{'positive': 0, 'negative': 0}\<close>, and the assignment that follows stores
  it.\<close>

definition default_scores :: "(string \<times> scores) list \<Rightarrow> string \<Rightarrow> scores" where
  "default_scores ticker_scores ticker =
     (case map_of ticker_scores ticker of
        None \<Rightarrow> \<lparr>positive = 0, negative = 0\<rparr>
      | Some s \<Rightarrow> s)"

fun count_signals ::
  "(string \<times> string) list \<Rightarrow> (string \<times> scores) list \<Rightarrow> (string \<times> scores) list" where
  "count_signals [] ticker_scores = ticker_scores"
| "count_signals ((ticker, sentiment) # signals) ticker_scores =
     count_signals signals
       (if sentiment = ''Positive''
        then AList.update ticker
               ((default_scores ticker_scores ticker)
                  \<lparr>positive := positive (default_scores ticker_scores ticker) + 1\<rparr>)
               ticker_scores
        else if sentiment = ''Negative''
        then AList.update ticker
               ((default_scores ticker_scores ticker)
                  \<lparr>negative := negative (default_scores ticker_scores ticker) + 1\<rparr>)
               ticker_scores
        else ticker_scores)"

fun keep_nonzero ::
  "(string \<times> scores) list \<Rightarrow> (string \<times> scored) list \<Rightarrow> (string \<times> scored) list" where
  "keep_nonzero [] scored_tickers = scored_tickers"
| "keep_nonzero ((ticker, s) # items) scored_tickers =
     keep_nonzero items
       (if positive s - negative s \<noteq> 0
        then AList.update ticker
               \<lparr>positive = positive s, negative = negative s,
                net_score = positive s - negative s\<rparr>
               scored_tickers
        else scored_tickers)"

definition score_tickers :: "(string \<times> string) list \<Rightarrow> (string \<times> scored) list" where
  "score_tickers signals = keep_nonzero (count_signals signals []) []"

subsection \<open>The ranked view\<close>

text \<open>
  The rows of \<^verbatim>\<open>df\<close> are the items of \<^verbatim>\<open>scored_tickers\<close> in the dict's order.
  \<^verbatim>\<open>sort_values(by='net_score', ascending=...)\<close> is pandas' and is a parameter
  \<open>sort_values ascending rows\<close>; \<open>sorts_by_net_score\<close> is what its documentation
  promises, with nothing said about rows of equal \<^verbatim>\<open>net_score\<close>.
\<close>

type_synonym row = "string \<times> scored"

definition sorts_by_net_score :: "(bool \<Rightarrow> row list \<Rightarrow> row list) \<Rightarrow> bool" where
  "sorts_by_net_score sort_values =
     (\<forall>rows. mset (sort_values True rows) = mset rows \<and>
             sorted (map (\<lambda>r. net_score (snd r)) (sort_values True rows)) \<and>
             mset (sort_values False rows) = mset rows \<and>
             sorted (rev (map (\<lambda>r. net_score (snd r)) (sort_values False rows))))"

definition bullish_df :: "(bool \<Rightarrow> row list \<Rightarrow> row list) \<Rightarrow> row list \<Rightarrow> row list" where
  "bullish_df sort_values df = sort_values False (filter (\<lambda>r. net_score (snd r) > 0) df)"

definition bearish_df :: "(bool \<Rightarrow> row list \<Rightarrow> row list) \<Rightarrow> row list \<Rightarrow> row list" where
  "bearish_df sort_values df = sort_values True (filter (\<lambda>r. net_score (snd r) < 0) df)"

text \<open>A sort that meets the contract: insertion sort on the key, stable.\<close>

definition stable_sort_values :: "bool \<Rightarrow> row list \<Rightarrow> row list" where
  "stable_sort_values ascending rows =
     (if ascending then sort_key (\<lambda>r. net_score (snd r)) rows
      else sort_key (\<lambda>r. - net_score (snd r)) rows)"

section \<open>analyzer.py\<close>

datatype analyzer =
    OllamaAnalyzer string
  | OpenAIAnalyzer string string
  | GeminiAnalyzer string string

text \<open>\<^verbatim>\<open>model_name or default\<close> and \<^verbatim>\<open>not api_key\<close>, for an optional string.\<close>

definition or_default :: "string option \<Rightarrow> string \<Rightarrow> string" where
  "or_default model_name dflt =
     (case model_name of None \<Rightarrow> dflt | Some m \<Rightarrow> if m = [] then dflt else m)"

definition get_analyzer :: "string \<Rightarrow> string option \<Rightarrow> string option \<Rightarrow> exn + analyzer" where
  "get_analyzer provider api_key model_name =
     (if provider = ''Ollama'' then Inr (OllamaAnalyzer (or_default model_name ''llama3.1''))
      else if provider = ''OpenAI'' then
        (case api_key of
           None \<Rightarrow> Inl (Exn ValueError ''OpenAI API key is required.'')
         | Some key \<Rightarrow>
             if key = [] then Inl (Exn ValueError ''OpenAI API key is required.'')
             else Inr (OpenAIAnalyzer key (or_default model_name ''gpt-4o-mini'')))
      else if provider = ''Google Gemini'' then
        (case api_key of
           None \<Rightarrow> Inl (Exn ValueError ''Google Gemini API key is required.'')
         | Some key \<Rightarrow>
             if key = [] then Inl (Exn ValueError ''Google Gemini API key is required.'')
             else Inr (GeminiAnalyzer key (or_default model_name ''gemini-1.5-flash'')))
      else Inl (Exn ValueError (''Unknown LLM provider: '' @ provider)))"

text \<open>
  \<^verbatim>\<open>ANALYSIS_PROMPT\<close>, before and after its only field \<^verbatim>\<open>{article_content}\<close>.
\<close>

definition prompt_head :: string where
  \<open>prompt_head =
     CHR 0x0A # ''As an expert financial analyst, analyze the following news article.'' @
     CHR 0x0A # ''Provide your output strictly in a JSON format with the following keys:'' @
     CHR 0x0A # ''- "sentiment": "Positive", "Negative", or "Neutral".'' @
     CHR 0x0A # ''- "affected_entities": A list of stock tickers or market sectors directly affected.'' @
     CHR 0x0A # ''- "event_summary": A brief, one-sentence summary of the key event.'' @
     CHR 0x0A # ''- "potential_impact": A concise analysis of the potential impact on the entities.'' @
     CHR 0x0A # ''- "confidence_score": A score from 1 to 5 on your confidence in this analysis.'' @
     CHR 0x0A # CHR 0x0A # ''Article: "''\<close>

definition prompt_tail :: string where
  \<open>prompt_tail = ''"'' @ CHR 0x0A # CHR 0x0A # ''JSON Output:'' @ [CHR 0x0A]\<close>

text \<open>
  What lies outside the repository: \<open>render v\<close> is the text \<^verbatim>\<open>str.format\<close> puts for a
  value that is not a string; \<open>provider a history prompt\<close> is the text the provider's
  client returns for the prompt (\<^verbatim>\<open>response['message']['content']\<close>,
  \<^verbatim>\<open>response.choices[0].message.content\<close>, \<^verbatim>\<open>response.text\<close>) after the requests of
  \<open>history\<close>, or the exception raised on the way; \<open>json_loads\<close> is \<^verbatim>\<open>json.loads\<close>.
\<close>

record env =
  render :: "json \<Rightarrow> string"
  provider :: "analyzer \<Rightarrow> string list \<Rightarrow> string \<Rightarrow> exn + string"
  json_loads :: "string \<Rightarrow> exn + json"

text \<open>\<^verbatim>\<open>ANALYSIS_PROMPT.format(article_content=article_content)\<close>\<close>

definition format_prompt :: "env \<Rightarrow> json \<Rightarrow> string" where
  "format_prompt E article_content =
     prompt_head @ (case article_content of JStr s \<Rightarrow> s | v \<Rightarrow> render E v) @ prompt_tail"

definition gemini_suffix :: string where
  "gemini_suffix = CHR 0x0A #
     ''Ensure your entire response is only the raw JSON object, without any markdown formatting.''"

definition fence :: string where
  "fence = [CHR 0x60, CHR 0x60, CHR 0x60]"

text \<open>\<^verbatim>\<open>analyze\<close> of the three classes. The result is the value returned or the
  exception raised, and the requests sent so far.\<close>

fun analyze :: "env \<Rightarrow> analyzer \<Rightarrow> string list \<Rightarrow> json \<Rightarrow> (exn + json) \<times> string list" where
  "analyze E (GeminiAnalyzer key model) history article_content =
     (let prompt = format_prompt E article_content @ gemini_suffix
      in (case provider E (GeminiAnalyzer key model) history prompt of
            Inl e \<Rightarrow> Inl e
          | Inr text \<Rightarrow>
              json_loads E (py_replace (py_replace (py_strip text) (fence @ ''json'') []) fence []),
          history @ [prompt]))"
| "analyze E a history article_content =
     (let prompt = format_prompt E article_content
      in (case provider E a history prompt of
            Inl e \<Rightarrow> Inl e
          | Inr text \<Rightarrow> json_loads E text,
          history @ [prompt]))"

section \<open>pipeline.py\<close>

text \<open>The state a run reads and writes: the two JSON files (absent, or what
  \<^verbatim>\<open>json.load\<close> makes of the file: a document or an exception) and the requests sent
  to the provider. A run gives the value it returns or the exception it raises, and the
  state it leaves.\<close>

record world =
  files :: "string \<Rightarrow> (exn + json) option"
  requests :: "string list"

definition PREPROCESSED_FILE :: string where
  "PREPROCESSED_FILE = ''preprocessed_articles.json''"

definition ANALYZED_FILE :: string where
  "ANALYZED_FILE = ''analyzed_articles.json''"

text \<open>The de-duplication loop of \<^verbatim>\<open>run_fetch_pipeline\<close>.\<close>

fun dedupe_loop :: "json list \<Rightarrow> json list \<Rightarrow> json set \<Rightarrow> exn + json list" where
  "dedupe_loop [] unique_articles seen_urls = Inr unique_articles"
| "dedupe_loop (article # articles) unique_articles seen_urls =
     (case py_getitem article ''url'' of
        Inl e \<Rightarrow> Inl e
      | Inr url \<Rightarrow>
          (case py_hash_key url of
             Inl e \<Rightarrow> Inl e
           | Inr key \<Rightarrow>
               if key \<notin> seen_urls
               then dedupe_loop articles (unique_articles @ [article]) (insert key seen_urls)
               else dedupe_loop articles unique_articles seen_urls))"

definition dedupe :: "json list \<Rightarrow> exn + json list" where
  "dedupe us_articles = dedupe_loop us_articles [] {}"

text \<open>\<open>fetched\<close> is what \<^verbatim>\<open>NewsFetcher().fetch_us_headlines()\<close> returned, or the
  exception of the constructor.\<close>

definition run_fetch_pipeline :: "exn + json list \<Rightarrow> world \<Rightarrow> (exn + bool) \<times> world" where
  "run_fetch_pipeline fetched w =
     (case fetched of
        Inl e \<Rightarrow> (Inl e, w)
      | Inr us_articles \<Rightarrow>
     (case dedupe us_articles of
        Inl e \<Rightarrow> (Inl e, w)
      | Inr unique_articles \<Rightarrow>
     (case preprocess_articles unique_articles of
        Inl e \<Rightarrow> (Inl e, w)
      | Inr processed_articles \<Rightarrow>
          if processed_articles = [] then (Inr False, w)
          else (Inr True,
                 w\<lparr>files := (files w)(PREPROCESSED_FILE \<mapsto> Inr (JList processed_articles))\<rparr>))))"

text \<open>The body of the analysis loop. The title is read for the progress line before the
  \<^verbatim>\<open>try\<close>; what the \<^verbatim>\<open>try\<close> covers is the read of \<^verbatim>\<open>cleaned_content\<close>, the call of
  \<^verbatim>\<open>analyze\<close> and the assignment, and the handler assigns the error object.\<close>

definition error_object :: "exn \<Rightarrow> json" where
  "error_object e = JObj [(''error'', JStr (str_exn e))]"

definition analyze_article ::
  "env \<Rightarrow> analyzer \<Rightarrow> string list \<Rightarrow> json \<Rightarrow> (exn + json) \<times> string list" where
  "analyze_article E a history article =
     (case py_getitem article ''title'' of
        Inl e \<Rightarrow> (Inl e, history)
      | Inr title \<Rightarrow>
     (case py_slice50 title of
        Inl e \<Rightarrow> (Inl e, history)
      | Inr shown \<Rightarrow>
     (case py_getitem article ''cleaned_content'' of
        Inl e \<Rightarrow> (py_setitem article ''analysis'' (error_object e), history)
      | Inr content \<Rightarrow>
          (case analyze E a history content of
             (Inl e, history') \<Rightarrow> (py_setitem article ''analysis'' (error_object e), history')
           | (Inr analysis_data, history') \<Rightarrow>
               (case py_setitem article ''analysis'' analysis_data of
                  Inl e \<Rightarrow> (py_setitem article ''analysis'' (error_object e), history')
                | Inr article' \<Rightarrow> (Inr article', history'))))))"

fun analysis_loop ::
  "env \<Rightarrow> analyzer \<Rightarrow> json list \<Rightarrow> json list \<Rightarrow> string list
     \<Rightarrow> (exn + json list) \<times> string list" where
  "analysis_loop E a [] analyzed_articles history = (Inr analyzed_articles, history)"
| "analysis_loop E a (article # articles) analyzed_articles history =
     (case analyze_article E a history article of
        (Inl e, history') \<Rightarrow> (Inl e, history')
      | (Inr article', history') \<Rightarrow>
          analysis_loop E a articles (analyzed_articles @ [article']) history')"

definition run_analysis_pipeline ::
  "env \<Rightarrow> string \<Rightarrow> string option \<Rightarrow> string option \<Rightarrow> world \<Rightarrow> (exn + bool) \<times> world" where
  "run_analysis_pipeline E llm_provider api_key model_name w =
     (case files w PREPROCESSED_FILE of
        None \<Rightarrow> (Inr False, w)
      | Some (Inl e) \<Rightarrow> (Inl e, w)
      | Some (Inr processed_articles) \<Rightarrow>
     (case get_analyzer llm_provider api_key model_name of
        Inl (Exn ValueError m) \<Rightarrow> (Inr False, w)
      | Inl e \<Rightarrow> (Inl e, w)
      | Inr a \<Rightarrow>
     (case py_len processed_articles of
        Inl e \<Rightarrow> (Inl e, w)
      | Inr total_articles \<Rightarrow>
     (case py_iter processed_articles of
        Inl e \<Rightarrow> (Inl e, w)
      | Inr articles \<Rightarrow>
     (case analysis_loop E a articles [] (requests w) of
        (Inl e, history) \<Rightarrow> (Inl e, w\<lparr>requests := history\<rparr>)
      | (Inr analyzed_articles, history) \<Rightarrow>
          (Inr True,
            w\<lparr>files := (files w)(ANALYZED_FILE \<mapsto> Inr (JList analyzed_articles)),
              requests := history\<rparr>))))))"

section \<open>The specification's side\<close>

text \<open>The definitions of this section follow the words of the specification; the
  theorems compare them with the code above.\<close>

subsection \<open>Candidate tickers\<close>

text \<open>The words of a text are its maximal runs of word characters: each is bounded by
  word boundaries, and no other run of word characters is. A candidate is a word of one
  to five capitals.\<close>

function word_runs :: "string \<Rightarrow> string list" where
  "word_runs [] = []"
| "word_runs (c # cs) =
     (if is_word c then takeWhile is_word (c # cs) # word_runs (dropWhile is_word cs)
      else word_runs cs)"
  by pat_completeness auto
termination
  by (relation "measure length") (auto simp: length_dropWhile_le less_Suc_eq_le)

definition ticker_shaped :: "string \<Rightarrow> bool" where
  "ticker_shaped w = (1 \<le> length w \<and> length w \<le> 5 \<and> list_all is_upper w)"

definition ticker_candidates :: "string \<Rightarrow> string list" where
  "ticker_candidates s = filter ticker_shaped (word_runs s)"

text \<open>An occurrence \<open>pre @ w @ post\<close> of \<open>w\<close> is bounded when a word boundary stands on
  each side of it; for a \<open>w\<close> of word characters, when no word character touches it.\<close>

definition bounded_at :: "string \<Rightarrow> string \<Rightarrow> string \<Rightarrow> bool" where
  "bounded_at pre w post =
     ((pre = [] \<or> \<not> is_word (last pre)) \<and> (post = [] \<or> \<not> is_word (hd post)))"

subsection \<open>Signals of an analyzed article\<close>

text \<open>An analyzed article is a dict whose \<^verbatim>\<open>analysis\<close> is absent (or \<^verbatim>\<open>null\<close>), a
  Failure (a dict with the key \<^verbatim>\<open>error\<close>), or a dict whose \<^verbatim>\<open>confidence_score\<close>,
  where present, is an integer and whose \<^verbatim>\<open>affected_entities\<close>, where present, is a
  list.\<close>

fun analysis_result :: "json \<Rightarrow> bool" where
  "analysis_result JNull = True"
| "analysis_result (JObj kvs) =
     (map_of kvs ''error'' \<noteq> None \<or>
      ((case map_of kvs ''confidence_score'' of
          None \<Rightarrow> True | Some (JInt n) \<Rightarrow> True | Some v \<Rightarrow> False) \<and>
       (case map_of kvs ''affected_entities'' of
          None \<Rightarrow> True | Some (JList es) \<Rightarrow> True | Some v \<Rightarrow> False)))"
| "analysis_result v = False"

fun analyzed_article :: "json \<Rightarrow> bool" where
  "analyzed_article (JObj kvs) =
     (case map_of kvs ''analysis'' of None \<Rightarrow> True | Some a \<Rightarrow> analysis_result a)"
| "analyzed_article v = False"

text \<open>The confidence of a Success; a missing score counts as 0.\<close>

definition confidence_of :: "(string \<times> json) list \<Rightarrow> int" where
  "confidence_of kvs = (case map_of kvs ''confidence_score'' of Some (JInt n) \<Rightarrow> n | _ \<Rightarrow> 0)"

definition entities_of :: "(string \<times> json) list \<Rightarrow> json list" where
  "entities_of kvs = (case map_of kvs ''affected_entities'' of Some (JList es) \<Rightarrow> es | _ \<Rightarrow> [])"

definition entity_pairs :: "string set \<Rightarrow> string \<Rightarrow> json \<Rightarrow> (string \<times> string) list" where
  "entity_pairs registry sentiment entity =
     (case entity of
        JStr s \<Rightarrow> map (\<lambda>candidate. (candidate, sentiment))
                    (filter (\<lambda>candidate. candidate \<in> registry) (ticker_candidates s))
      | _ \<Rightarrow> [])"

definition success_signals ::
  "string set \<Rightarrow> int \<Rightarrow> (string \<times> json) list \<Rightarrow> (string \<times> string) list" where
  "success_signals registry threshold kvs =
     (if map_of kvs ''error'' \<noteq> None then []
      else if confidence_of kvs < threshold then []
      else (case map_of kvs ''sentiment'' of
              Some (JStr sentiment) \<Rightarrow>
                if sentiment = ''Positive'' \<or> sentiment = ''Negative''
                then concat (map (entity_pairs registry sentiment) (entities_of kvs))
                else []
            | _ \<Rightarrow> []))"

definition expected_signals :: "string set \<Rightarrow> int \<Rightarrow> json \<Rightarrow> (string \<times> string) list" where
  "expected_signals registry threshold article =
     (case article of
        JObj items \<Rightarrow>
          (case map_of items ''analysis'' of
             Some (JObj kvs) \<Rightarrow> success_signals registry threshold kvs
           | _ \<Rightarrow> [])
      | _ \<Rightarrow> [])"

subsection \<open>First occurrences\<close>

text \<open>The identity of an article is the value of its \<^verbatim>\<open>url\<close>, as a set stores it.\<close>

definition url_of :: "json \<Rightarrow> json option" where
  "url_of article =
     (case py_getitem article ''url'' of
        Inl e \<Rightarrow> None
      | Inr url \<Rightarrow> (case py_hash_key url of Inl e \<Rightarrow> None | Inr key \<Rightarrow> Some key))"

fun first_seen :: "json option set \<Rightarrow> json list \<Rightarrow> json list" where
  "first_seen seen [] = []"
| "first_seen seen (a # as) =
     (if url_of a \<in> seen then first_seen seen as
      else a # first_seen (insert (url_of a) seen) as)"

subsection \<open>Preprocessing\<close>


definition content_text :: "json \<Rightarrow> string option" where
  "content_text article =
     (case article of
        JObj items \<Rightarrow> (case map_of items ''content'' of Some (JStr s) \<Rightarrow> Some s | _ \<Rightarrow> None)
      | _ \<Rightarrow> None)"

definition has_text :: "json \<Rightarrow> bool" where
  "has_text article =
     (case content_text article of None \<Rightarrow> False | Some s \<Rightarrow> clean_article_content s \<noteq> [])"

definition with_cleaned :: "json \<Rightarrow> json" where
  "with_cleaned article =
     (case (article, content_text article) of
        (JObj items, Some s) \<Rightarrow>
          JObj (AList.update ''cleaned_content'' (JStr (clean_article_content s)) items)
      | _ \<Rightarrow> article)"

fun is_dict :: "json \<Rightarrow> bool" where
  "is_dict (JObj kvs) = True"
| "is_dict v = False"

subsection \<open>Analysis of a batch\<close>

text \<open>The entry of one article: the article with \<^verbatim>\<open>analysis\<close> set to what the oracle
  returned for its \<^verbatim>\<open>cleaned_content\<close>, or to the error object of the exception.\<close>

definition oracle_outcome :: "env \<Rightarrow> analyzer \<Rightarrow> string list \<Rightarrow> json \<Rightarrow> exn + json" where
  "oracle_outcome E a history article =
     (case py_getitem article ''cleaned_content'' of
        Inl e \<Rightarrow> Inl e
      | Inr content \<Rightarrow> fst (analyze E a history content))"

definition annotated :: "env \<Rightarrow> analyzer \<Rightarrow> string list \<Rightarrow> json \<Rightarrow> json" where
  "annotated E a history article =
     (case article of
        JObj items \<Rightarrow>
          JObj (AList.update ''analysis''
                  (case oracle_outcome E a history article of
                     Inl e \<Rightarrow> JObj [(''error'', JStr (str_exn e))]
                   | Inr result \<Rightarrow> result)
                  items)
      | _ \<Rightarrow> article)"

text \<open>The requests the articles of a batch send, in order.\<close>

definition requests_of :: "env \<Rightarrow> analyzer \<Rightarrow> string list \<Rightarrow> json \<Rightarrow> string list" where
  "requests_of E a history article =
     (case py_getitem article ''cleaned_content'' of
        Inl e \<Rightarrow> history
      | Inr content \<Rightarrow> snd (analyze E a history content))"

fun history_after :: "env \<Rightarrow> analyzer \<Rightarrow> string list \<Rightarrow> json list \<Rightarrow> string list" where
  "history_after E a history [] = history"
| "history_after E a history (article # articles) =
     history_after E a (requests_of E a history article) articles"

fun titled :: "json \<Rightarrow> bool" where
  "titled (JObj items) = (case map_of items ''title'' of Some (JStr t) \<Rightarrow> True | _ \<Rightarrow> False)"
| "titled v = False"

subsection \<open>The oracle and the configuration\<close>

text \<open>What an analyzer sends for an article's text, and the text it parses of what it
  receives.\<close>

definition request_text :: "env \<Rightarrow> analyzer \<Rightarrow> json \<Rightarrow> string" where
  "request_text E a content =
     (case a of
        GeminiAnalyzer key model \<Rightarrow> format_prompt E content @ gemini_suffix
      | _ \<Rightarrow> format_prompt E content)"

definition response_text :: "analyzer \<Rightarrow> string \<Rightarrow> string" where
  "response_text a text =
     (case a of
        GeminiAnalyzer key model \<Rightarrow>
          py_replace (py_replace (py_strip text) (fence @ ''json'') []) fence []
      | _ \<Rightarrow> text)"


section \<open>Example inputs\<close>

definition example_registry :: "string set" where
  "example_registry = {''AAPL'', ''MSFT''}"

definition example_analyzed :: "json list" where
  "example_analyzed =
     [JObj [(''title'', JStr ''Apple surges''),
            (''analysis'', JObj [(''sentiment'', JStr ''Positive''),
                                 (''affected_entities'',
                                    JList [JStr ''AAPL surges'',
                                           JStr ''Apple (AAPL) and Microsoft (MSFT), XYZQQ sector'']),
                                 (''confidence_score'', JInt 4)])],
      JObj [(''title'', JStr ''Timeout''),
            (''analysis'', JObj [(''error'', JStr ''connection refused'')])],
      JObj [(''title'', JStr ''Microsoft slips''),
            (''analysis'', JObj [(''sentiment'', JStr ''Negative''),
                                 (''affected_entities'', JList [JStr ''MSFT'', JStr ''msft AAPLX'']),
                                 (''confidence_score'', JInt 3)])]]"

definition example_unscored :: "(string \<times> json) list" where
  "example_unscored =
     [(''title'', JStr ''No score''),
      (''analysis'', JObj [(''sentiment'', JStr ''Positive''),
                           (''affected_entities'', JList [JStr ''AAPL''])])]"

definition example_signals_list :: "(string \<times> string) list" where
  "example_signals_list =
     [(''AAPL'', ''Positive''), (''MSFT'', ''Positive''), (''AAPL'', ''Positive''),
      (''AAPL'', ''Negative''), (''MSFT'', ''Negative'')]"

definition example_df :: "row list" where
  "example_df =
     [(''A'', \<lparr>positive = 4, negative = 1, net_score = 3\<rparr>),
      (''B'', \<lparr>positive = 0, negative = 2, net_score = - 2\<rparr>),
      (''C'', \<lparr>positive = 1, negative = 0, net_score = 1\<rparr>)]"

text \<open>A second sort that meets the contract, and a mapping with two tickers of equal
  net score.\<close>

definition reversed_sort_values :: "bool \<Rightarrow> row list \<Rightarrow> row list" where
  "reversed_sort_values ascending rows = stable_sort_values ascending (rev rows)"

definition tied_df :: "row list" where
  "tied_df =
     [(''AAA'', \<lparr>positive = 1, negative = 0, net_score = 1\<rparr>),
      (''BBB'', \<lparr>positive = 2, negative = 1, net_score = 1\<rparr>)]"

definition example_fetched :: "json list" where
  "example_fetched =
     [JObj [(''title'', JStr ''First''), (''url'', JStr ''https://example.com/a''),
            (''content'', JStr ''Stocks   rallied today [+123 chars]'')],
      JObj [(''title'', JStr ''Second''), (''url'', JStr ''https://example.com/b''),
            (''content'', JStr ''  '')],
      JObj [(''title'', JStr ''First again''), (''url'', JStr ''https://example.com/a''),
            (''content'', JNull)]]"

text \<open>A provider that answers one article with text that is not JSON, fails to
  connect for another, and answers the rest with an empty object; \<^verbatim>\<open>json.loads\<close> on the
  two texts it is given.\<close>

definition example_env :: env where
  "example_env =
     \<lparr>render = (\<lambda>v. type_name v),
      provider = (\<lambda>a history prompt.
         if prompt = prompt_head @ ''Stocks rallied today'' @ prompt_tail then Inr ''not json''
         else if history = [] then Inl (Exn OtherError ''connection refused'')
         else Inr ''{}''),
      json_loads = (\<lambda>s.
         if s = ''{}'' then Inr (JObj [])
         else Inl (Exn OtherError ''Expecting value: line 1 column 1 (char 0)''))\<rparr>"

definition example_cleaned :: "json list" where
  "example_cleaned =
     [JObj [(''title'', JStr ''Markets''), (''cleaned_content'', JStr ''Markets fell'')],
      JObj [(''title'', JStr ''Stocks''), (''cleaned_content'', JStr ''Stocks rallied today'')],
      JObj [(''title'', JStr ''Bonds''), (''cleaned_content'', JStr ''Bonds were flat'')]]"

definition example_world :: world where
  "example_world =
     \<lparr>files = [PREPROCESSED_FILE \<mapsto> Inr (JList example_cleaned)], requests = []\<rparr>"

definition example_items :: "(string \<times> json) list" where
  "example_items =
     [(''title'', JStr ''Stocks''), (''cleaned_content'', JStr ''Stocks rallied today'')]"

section \<open>The text normalizer\<close>























section \<open>The ticker pattern\<close>

lemma upper_is_word: "is_upper c \<Longrightarrow> is_word c"
  by (auto simp: is_upper_def is_word_def Let_def)

lemma backtrack_none:
  "(\<And>k. k < n \<Longrightarrow> \<not> word_boundary (Some (s ! k)) (drop (Suc k) s)) \<Longrightarrow> backtrack s n = None"
  by (induction n) auto

lemma takeWhile_upper_word:
  "list_all is_upper (takeWhile is_word s) \<Longrightarrow> takeWhile is_upper s = takeWhile is_word s"
  by (induction s) (auto simp: upper_is_word)

lemma takeWhile_upper_le: "length (takeWhile is_upper s) \<le> length (takeWhile is_word s)"
  by (induction s) (auto simp: upper_is_word)

lemma takeWhile_upper_full:
  "length (takeWhile is_upper s) = length (takeWhile is_word s) \<Longrightarrow>
   takeWhile is_upper s = takeWhile is_word s"
  by (induction s) (auto simp: upper_is_word split: if_splits)

lemma boundary_after_word:
  assumes "is_word p"
  shows "word_boundary (Some p) (dropWhile is_word s)"
proof (cases "dropWhile is_word s")
  case Nil
  show ?thesis unfolding Nil word_boundary_def using assms by simp
next
  case (Cons d ds)
  then have "\<not> is_word d" using hd_dropWhile [of is_word s] by simp
  then show ?thesis unfolding Cons word_boundary_def using assms by simp
qed

lemma no_boundary_inside:
  assumes "Suc k < length (takeWhile is_word s)"
  shows "\<not> word_boundary (Some (s ! k)) (drop (Suc k) s)"
proof -
  let ?w = "takeWhile is_word s"
  have len: "length ?w \<le> length s" by (rule length_takeWhile_le)
  have a: "is_word (s ! k)"
    using assms nth_mem [of k ?w] set_takeWhileD [of "s ! k" is_word s]
    by (simp add: takeWhile_nth)
  have b: "is_word (s ! Suc k)"
    using assms nth_mem [of "Suc k" ?w] set_takeWhileD [of "s ! Suc k" is_word s]
    by (simp add: takeWhile_nth)
  have "drop (Suc k) s = s ! Suc k # drop (Suc (Suc k)) s"
    using assms len by (simp add: Cons_nth_drop_Suc)
  with a b show ?thesis by (simp add: word_boundary_def)
qed

lemma candidates_word:
  "is_word c \<Longrightarrow> s = c # cs \<Longrightarrow>
   ticker_candidates s =
     (if ticker_shaped (takeWhile is_word s) then [takeWhile is_word s] else [])
       @ ticker_candidates (dropWhile is_word s)"
  by (simp add: ticker_candidates_def ticker_shaped_def)

lemma candidates_nonword: "\<not> is_word c \<Longrightarrow> ticker_candidates (c # cs) = ticker_candidates cs"
  by (simp add: ticker_candidates_def)

lemma nth_takeWhile_word:
  assumes "k < length (takeWhile is_word s)"
  shows "is_word (s ! k)"
proof -
  have "takeWhile is_word s ! k \<in> set (takeWhile is_word s)" using assms by (rule nth_mem)
  then have "is_word (takeWhile is_word s ! k)" by (rule set_takeWhileD [THEN conjunct2])
  with assms show ?thesis by (simp add: takeWhile_nth)
qed

lemma match_good:
  assumes g: "ticker_shaped (takeWhile is_word s)" and b: "word_boundary prev s"
  shows "match_ticker prev s = Some (length (takeWhile is_word s))"
proof -
  define w where "w = takeWhile is_word s"
  from g have u: "takeWhile is_upper s = w"
    unfolding w_def by (simp add: ticker_shaped_def takeWhile_upper_word)
  from g have m: "min 5 (length w) = length w" unfolding w_def by (simp add: ticker_shaped_def)
  from g obtain m' where m': "length w = Suc m'"
    unfolding w_def ticker_shaped_def by (cases "length (takeWhile is_word s)") auto
  have "is_word (s ! m')" using m' by (simp add: w_def nth_takeWhile_word)
  moreover have "drop (Suc m') s = dropWhile is_word s"
    using m' unfolding w_def by (metis dropWhile_eq_drop)
  ultimately have "word_boundary (Some (s ! m')) (drop (Suc m') s)"
    by (simp only: boundary_after_word)
  then have "backtrack s (Suc m') = Some (Suc m')" by simp
  with b u m m' show ?thesis by (simp add: match_ticker_def w_def)
qed

lemma match_bad:
  assumes g: "\<not> ticker_shaped (takeWhile is_word s)"
  shows "match_ticker prev s = None"
proof -
  define w where "w = takeWhile is_word s"
  define u where "u = takeWhile is_upper s"
  have ule: "length u \<le> length w" unfolding u_def w_def by (rule takeWhile_upper_le)
  have "backtrack s (min 5 (length u)) = None"
  proof (rule backtrack_none)
    fix k assume k: "k < min 5 (length u)"
    show "\<not> word_boundary (Some (s ! k)) (drop (Suc k) s)"
    proof (cases "Suc k < length w")
      case True
      then show ?thesis unfolding w_def by (rule no_boundary_inside)
    next
      case False
      with k ule have eq: "length u = length w" and le: "length w \<le> 5" and pos: "1 \<le> length w"
        by auto
      from eq have "u = w" unfolding u_def w_def by (rule takeWhile_upper_full)
      then have "list_all is_upper w"
        unfolding u_def by (metis list_all_iff set_takeWhileD)
      with le pos g show ?thesis by (simp add: ticker_shaped_def w_def)
    qed
  qed
  then show ?thesis by (simp add: match_ticker_def u_def)
qed

lemma findall_candidates:
  "findall_ticker prev s =
     ticker_candidates
       (if (case prev of None \<Rightarrow> False | Some p \<Rightarrow> is_word p) then dropWhile is_word s else s)"
proof (induction prev s rule: findall_ticker.induct)
  case (1 prev)
  show ?case by (simp add: ticker_candidates_def)
next
  case (2 prev c cs)
  define s where "s = c # cs"
  define w where "w = takeWhile is_word s"
  define pw where "pw = (case prev of None \<Rightarrow> False | Some p \<Rightarrow> is_word p)"
  have step_none: "findall_ticker prev s = findall_ticker (Some c) cs"
    if "match_ticker prev s = None"
    using that by (simp add: s_def)
  have ih_none: "findall_ticker (Some c) cs =
      ticker_candidates (if is_word c then dropWhile is_word cs else cs)"
    if "match_ticker prev s = None"
    using "2.IH"(1) that by (simp add: s_def)
  have goal: "findall_ticker prev s = ticker_candidates (if pw then dropWhile is_word s else s)"
  proof (cases "is_word c")
    case False
    have m: "match_ticker prev s = None"
      unfolding s_def using False upper_is_word [of c] by (auto simp: match_ticker_def)
    from False have "ticker_candidates s = ticker_candidates cs"
      by (simp add: s_def candidates_nonword)
    moreover from False have "dropWhile is_word s = s" by (simp add: s_def)
    ultimately show ?thesis using step_none [OF m] ih_none [OF m] False by simp
  next
    case c: True
    have dw: "dropWhile is_word s = dropWhile is_word cs" using c by (simp add: s_def)
    have cand: "ticker_candidates s =
        (if ticker_shaped w then [w] else []) @ ticker_candidates (dropWhile is_word cs)"
      using candidates_word [OF c s_def] dw by (simp add: w_def)
    show ?thesis
    proof (cases "pw \<or> \<not> ticker_shaped w")
      case True
      then have m: "match_ticker prev s = None"
      proof
        assume pw
        with c have "\<not> word_boundary prev s" by (simp add: word_boundary_def pw_def s_def)
        then show ?thesis by (simp add: match_ticker_def)
      next
        assume "\<not> ticker_shaped w"
        then show ?thesis unfolding w_def by (rule match_bad)
      qed
      show ?thesis using step_none [OF m] ih_none [OF m] c True dw cand by auto
    next
      case False
      then have npw: "\<not> pw" and g: "ticker_shaped w" by auto
      from npw c have b: "word_boundary prev s" by (simp add: word_boundary_def pw_def s_def)
      from g b have m: "match_ticker prev s = Some (length w)"
        unfolding w_def by (rule match_good)
      from g have pos: "0 < length w" by (cases w) (auto simp: ticker_shaped_def)
      then have last_word: "is_word (s ! (length w - 1))"
        by (simp add: w_def nth_takeWhile_word)
      have d: "drop (length w) s = dropWhile is_word s" unfolding w_def by (metis dropWhile_eq_drop)
      have t: "take (length w) s = w" unfolding w_def by (metis takeWhile_eq_take)
      have "findall_ticker (Some (s ! (length w - 1))) (drop (length w) s) =
              ticker_candidates (dropWhile is_word (drop (length w) s))"
        using "2.IH"(2) [OF m [unfolded s_def]] last_word by (simp add: s_def)
      then have rest: "findall_ticker (Some (s ! (length w - 1))) (drop (length w) s) =
              ticker_candidates (dropWhile is_word cs)"
        using dw by (simp add: d dropWhile_idem)
      have "findall_ticker prev s =
          take (length w) s # findall_ticker (Some (s ! (length w - 1))) (drop (length w) s)"
        using m by (simp add: s_def)
      with rest t cand npw g show ?thesis by simp
    qed
  qed
  then show ?case by (simp add: s_def pw_def)
qed

lemma potential_tickers_candidates: "potential_tickers s = ticker_candidates s"
  by (simp add: potential_tickers_def findall_candidates)

text \<open>The candidates of a text are its substrings of one to five capitals with a word
  boundary on each side.\<close>

lemma takeWhile_run:
  assumes "list_all P w" and "post = [] \<or> \<not> P (hd post)"
  shows "takeWhile P (w @ post) = w \<and> dropWhile P (w @ post) = post"
  using assms by (induction w) (cases post; auto)+

lemma word_runs_sound:
  "w \<in> set (word_runs s) \<Longrightarrow>
   w \<noteq> [] \<and> list_all is_word w \<and> (\<exists>pre post. s = pre @ w @ post \<and> bounded_at pre w post)"
proof (induction s arbitrary: w rule: word_runs.induct)
  case 1
  then show ?case by simp
next
  case (2 c cs)
  show ?case
  proof (cases "is_word c")
    case False
    with 2(3) have "w \<in> set (word_runs cs)" by simp
    from 2(2) [OF False this] obtain pre post where "w \<noteq> []" "list_all is_word w"
      "cs = pre @ w @ post" "bounded_at pre w post"
      by blast
    with False have "c # cs = (c # pre) @ w @ post \<and> bounded_at (c # pre) w post"
      by (auto simp: bounded_at_def)
    with \<open>w \<noteq> []\<close> \<open>list_all is_word w\<close> show ?thesis by blast
  next
    case c: True
    define run where "run = takeWhile is_word (c # cs)"
    define rest where "rest = dropWhile is_word cs"
    have split: "c # cs = run @ rest" using c by (simp add: run_def rest_def)
    have run_ne: "run \<noteq> []" using c by (simp add: run_def)
    have run_word: "list_all is_word run"
      unfolding run_def list_all_iff by (auto dest: set_takeWhileD)
    have rest_hd: "rest = [] \<or> \<not> is_word (hd rest)"
      unfolding rest_def by (metis hd_dropWhile)
    from 2(3) c have "w = run \<or> w \<in> set (word_runs rest)" by (simp add: run_def rest_def)
    then show ?thesis
    proof
      assume "w = run"
      with split rest_hd have "c # cs = [] @ w @ rest \<and> bounded_at [] w rest"
        by (simp add: bounded_at_def)
      with \<open>w = run\<close> run_ne run_word show ?thesis by blast
    next
      assume "w \<in> set (word_runs rest)"
      with 2(1) [OF c] obtain pre post where w: "w \<noteq> []" "list_all is_word w"
        and r: "rest = pre @ w @ post" and b: "bounded_at pre w post"
        unfolding rest_def by blast
      have "pre \<noteq> []"
      proof
        assume "pre = []"
        with r w have "rest \<noteq> []" "is_word (hd rest)" by (cases w; simp)+
        with rest_hd show False by simp
      qed
      with b have "bounded_at (run @ pre) w post" by (simp add: bounded_at_def)
      moreover from split r have "c # cs = (run @ pre) @ w @ post" by simp
      ultimately show ?thesis using w by blast
    qed
  qed
qed

lemma word_runs_complete:
  "s = pre @ w @ post \<Longrightarrow> w \<noteq> [] \<Longrightarrow> list_all is_word w \<Longrightarrow> bounded_at pre w post \<Longrightarrow>
   w \<in> set (word_runs s)"
proof (induction s arbitrary: pre rule: word_runs.induct)
  case 1
  then show ?case by simp
next
  case (2 c cs)
  show ?case
  proof (cases "is_word c")
    case False
    have "pre \<noteq> []"
    proof
      assume "pre = []"
      with 2(3,4,5) have "is_word c" by (cases w) auto
      with False show False by simp
    qed
    then obtain pre' where pre: "pre = c # pre'" using 2(3) by (cases pre) auto
    with 2(3) have cs: "cs = pre' @ w @ post" by simp
    from 2(6) pre have "bounded_at pre' w post" by (auto simp: bounded_at_def split: if_splits)
    from 2(2) [OF False cs 2(4) 2(5) this] False show ?thesis by simp
  next
    case c: True
    show ?thesis
    proof (cases "pre = []")
      case True
      with 2(3,5,6) have "takeWhile is_word (c # cs) = w"
        using takeWhile_run [of is_word w post] by (simp add: bounded_at_def)
      with c show ?thesis by simp
    next
      case False
      with 2(6) have last: "\<not> is_word (last pre)" by (simp add: bounded_at_def)
      from False obtain pre' where pre: "pre = c # pre'" using 2(3) by (cases pre) auto
      with 2(3) have cs: "cs = pre' @ w @ post" by simp
      from pre last c have pre'_ne: "pre' \<noteq> []" by auto
      with pre last have last': "\<not> is_word (last pre')" by simp
      have ex: "\<exists>x \<in> set pre'. \<not> is_word x" using pre'_ne last' last_in_set by blast
      from ex obtain x where "x \<in> set pre'" "\<not> is_word x" by blast
      then have dw: "dropWhile is_word cs = dropWhile is_word pre' @ w @ post"
        unfolding cs by (rule dropWhile_append1)
      from ex have ne: "dropWhile is_word pre' \<noteq> []" by (simp add: dropWhile_eq_Nil_conv)
      then have "last (dropWhile is_word pre') = last pre'"
        by (metis last_appendR takeWhile_dropWhile_id)
      with ne last' 2(6) have "bounded_at (dropWhile is_word pre') w post"
        by (simp add: bounded_at_def)
      from 2(1) [OF c dw 2(4) 2(5) this] c show ?thesis by simp
    qed
  qed
qed

lemma ticker_candidates_iff:
  "(w \<in> set (ticker_candidates s)) =
   (ticker_shaped w \<and> (\<exists>pre post. s = pre @ w @ post \<and> bounded_at pre w post))"
proof
  assume "w \<in> set (ticker_candidates s)"
  then show "ticker_shaped w \<and> (\<exists>pre post. s = pre @ w @ post \<and> bounded_at pre w post)"
    using word_runs_sound [of w s] by (auto simp: ticker_candidates_def)
next
  assume a: "ticker_shaped w \<and> (\<exists>pre post. s = pre @ w @ post \<and> bounded_at pre w post)"
  then have "w \<noteq> []" "list_all is_word w"
    by (auto simp: ticker_shaped_def list_all_iff upper_is_word)
  with a have "w \<in> set (word_runs s)" using word_runs_complete by blast
  with a show "w \<in> set (ticker_candidates s)" by (simp add: ticker_candidates_def)
qed

section \<open>Signal extraction\<close>

lemma entity_signals_pairs: "entity_signals V d e = entity_pairs V d e"
  by (cases e) (simp_all add: entity_signals_def entity_pairs_def potential_tickers_candidates)

lemma entity_signals_pairs_fun: "entity_signals V d = entity_pairs V d"
  by (rule ext) (rule entity_signals_pairs)

lemma success_article_signals:
  assumes t: "1 \<le> t" and wf: "analysis_result (JObj kvs)"
    and an: "map_of items ''analysis'' = Some (JObj kvs)"
  shows "article_signals V t (JObj items) = Inr (success_signals V t kvs)"
proof (cases "kvs = []")
  case True
  with t an show ?thesis
    by (simp add: article_signals_def success_signals_def confidence_of_def)
next
  case ne: False
  show ?thesis
  proof (cases "map_of kvs ''error'' = None")
    case False
    with ne an show ?thesis
      by (auto simp: article_signals_def success_signals_def)
  next
    case noerr: True
    from wf noerr obtain
      c: "map_of kvs ''confidence_score'' = None \<or> (\<exists>n. map_of kvs ''confidence_score'' = Some (JInt n))"
      and e: "map_of kvs ''affected_entities'' = None \<or> (\<exists>es. map_of kvs ''affected_entities'' = Some (JList es))"
      by (auto split: option.splits json.splits)
    have conf: "(case py_get (JObj kvs) ''confidence_score'' (JInt 0) of Inl e \<Rightarrow> Inl e
                 | Inr score \<Rightarrow> py_lt_int score t) = Inr (confidence_of kvs < t)"
      using c by (auto simp: confidence_of_def)
    have ents: "(case py_get (JObj kvs) ''affected_entities'' (JList []) of Inl e \<Rightarrow> Inl e
                 | Inr entities \<Rightarrow> py_iter entities) = Inr (entities_of kvs)"
      using e by (auto simp: entities_of_def)
    show ?thesis
    proof (cases "confidence_of kvs < t")
      case True
      with ne noerr an c show ?thesis
        by (auto simp: article_signals_def success_signals_def confidence_of_def)
    next
      case False
      with ne noerr an c e show ?thesis
        by (auto simp: article_signals_def success_signals_def confidence_of_def entities_of_def
              entity_signals_pairs_fun split: option.splits json.splits)
    qed
  qed
qed

lemma analyzed_article_signals:
  assumes t: "1 \<le> t" and wf: "analyzed_article a"
  shows "article_signals V t a = Inr (expected_signals V t a)"
proof -
  from wf obtain items where a: "a = JObj items" by (cases a) auto
  show ?thesis
  proof (cases "map_of items ''analysis''")
    case None
    then show ?thesis by (simp add: a article_signals_def expected_signals_def)
  next
    case (Some an)
    with wf a have r: "analysis_result an" by simp
    show ?thesis
    proof (cases an)
      case JNull
      with Some show ?thesis by (simp add: a article_signals_def expected_signals_def)
    next
      case (JObj kvs)
      with t r Some have "article_signals V t (JObj items) = Inr (success_signals V t kvs)"
        by (simp add: success_article_signals)
      with Some JObj show ?thesis by (simp add: a expected_signals_def)
    qed (use r in auto)
  qed
qed

lemma signals_loop_total:
  "(\<And>a. a \<in> set articles \<Longrightarrow> article_signals V t a = Inr (f a)) \<Longrightarrow>
   signals_loop V t articles acc = Inr (acc @ concat (map f articles))"
  by (induction articles arbitrary: acc) auto

lemma signals_loop_append:
  "signals_loop V t (xs @ ys) acc =
     (case signals_loop V t xs acc of Inl e \<Rightarrow> Inl e | Inr acc' \<Rightarrow> signals_loop V t ys acc')"
  by (induction xs arbitrary: acc) (auto split: sum.splits)

text \<open>
  C1: for a sequence of analyzed articles and a threshold of at least 1 (so for each of
  1..5), \<^verbatim>\<open>extract_valid_signals\<close> returns the pairs the specification lists: nothing
  for an article whose analysis is absent or a Failure, nothing for a confidence below the
  threshold (an equal one passes), nothing for a sentiment other than Positive or
  Negative; otherwise, for each string of \<^verbatim>\<open>affected_entities\<close>, in order, each of its
  words of one to five capitals that the registry contains, in order, paired with the
  sentiment.
\<close>

theorem extract_valid_signals_spec:
  assumes "1 \<le> confidence_threshold"
    and "\<forall>article \<in> set articles. analyzed_article article"
  shows "extract_valid_signals registry articles confidence_threshold =
           Inr (concat (map (expected_signals registry confidence_threshold) articles))"
proof -
  have "signals_loop registry confidence_threshold articles [] =
          Inr ([] @ concat (map (expected_signals registry confidence_threshold) articles))"
    using assms by (intro signals_loop_total analyzed_article_signals) auto
  then show ?thesis by (simp add: extract_valid_signals_def)
qed

theorem extract_valid_signals_spec_witness:
  "(1::int) \<le> 3 \<and> list_all analyzed_article example_analyzed \<and>
   extract_valid_signals example_registry example_analyzed 3 =
     Inr (concat (map (expected_signals example_registry 3) example_analyzed))"
proof -
  have h1: "(1::int) \<le> 3" by simp
  have h2: "\<forall>article \<in> set example_analyzed. analyzed_article article"
    by (simp add: example_analyzed_def)
  have l2: "list_all analyzed_article example_analyzed"
    using h2 by (simp add: list_all_iff)
  have c: "extract_valid_signals example_registry example_analyzed 3 =
     Inr (concat (map (expected_signals example_registry 3) example_analyzed))"
    by (rule extract_valid_signals_spec [OF h1 h2])
  show ?thesis by (rule conjI [OF h1 conjI [OF l2 c]])
qed

lemma example_signals:
  "extract_valid_signals example_registry example_analyzed 3 =
     Inr [(''AAPL'', ''Positive''), (''AAPL'', ''Positive''), (''MSFT'', ''Positive''),
          (''MSFT'', ''Negative'')]"
  by code_simp

text \<open>
  C10: an article whose analysis is a Success without the key \<^verbatim>\<open>confidence_score\<close>
  has confidence 0: for every threshold of at least 1 it appends no signal, whatever its
  sentiment and entities, and the signals of a batch are those of the batch without it.
\<close>

theorem missing_confidence_no_signals:
  assumes "1 \<le> confidence_threshold"
    and "map_of items ''analysis'' = Some (JObj kvs)"
    and "map_of kvs ''error'' = None"
    and "map_of kvs ''confidence_score'' = None"
  shows "article_signals registry confidence_threshold (JObj items) = Inr [] \<and>
         extract_valid_signals registry (before @ JObj items # after) confidence_threshold =
           extract_valid_signals registry (before @ after) confidence_threshold"
proof -
  have a: "article_signals registry confidence_threshold (JObj items) = Inr []"
    using assms by (cases "kvs = []") (auto simp: article_signals_def)
  have step: "signals_loop registry confidence_threshold (JObj items # after) acc =
             signals_loop registry confidence_threshold after acc" for acc
    using a by simp
  have "extract_valid_signals registry (before @ JObj items # after) confidence_threshold =
           extract_valid_signals registry (before @ after) confidence_threshold"
    by (simp add: extract_valid_signals_def signals_loop_append step del: signals_loop.simps split: sum.splits)
  with a show ?thesis by simp
qed

theorem missing_confidence_no_signals_witness:
  "(1::int) \<le> 1 \<and>
   map_of example_unscored ''analysis'' =
     Some (JObj [(''sentiment'', JStr ''Positive''), (''affected_entities'', JList [JStr ''AAPL''])]) \<and>
   article_signals example_registry 1 (JObj example_unscored) = Inr [] \<and>
   extract_valid_signals example_registry (example_analyzed @ JObj example_unscored # []) 1 =
     extract_valid_signals example_registry (example_analyzed @ []) 1"
proof -
  have h1: "(1::int) \<le> 1" by simp
  have h2: "map_of example_unscored ''analysis'' =
     Some (JObj [(''sentiment'', JStr ''Positive''), (''affected_entities'', JList [JStr ''AAPL''])])"
    by (simp add: example_unscored_def)
  have h3: "map_of [(''sentiment'', JStr ''Positive''), (''affected_entities'', JList [JStr ''AAPL''])]
              ''error'' = None"
    by simp
  have h4: "map_of [(''sentiment'', JStr ''Positive''), (''affected_entities'', JList [JStr ''AAPL''])]
              ''confidence_score'' = None"
    by simp
  show ?thesis
    by (rule conjI [OF h1 conjI [OF h2 missing_confidence_no_signals [OF h1 h2 h3 h4]]])
qed

section \<open>Scores\<close>

lemma count_signals_distinct:
  "distinct (map fst d) \<Longrightarrow> distinct (map fst (count_signals signals d))"
  by (induction signals d rule: count_signals.induct) (simp_all add: distinct_update)

lemma default_scores_update:
  "default_scores (AList.update k v d) t = (if t = k then v else default_scores d t)"
  by (simp add: default_scores_def update_conv')

lemma count_signals_scores:
  "default_scores (count_signals signals d) t =
     \<lparr>positive = positive (default_scores d t) + int (count_list signals (t, ''Positive'')),
      negative = negative (default_scores d t) + int (count_list signals (t, ''Negative''))\<rparr>"
proof (induction signals d rule: count_signals.induct)
  case (1 d)
  show ?case by simp
next
  case (2 ticker sentiment signals d)
  then show ?case by (simp add: default_scores_update)
qed

lemma count_signals_keys:
  "(map_of (count_signals signals d) t = None) =
     (map_of d t = None \<and> count_list signals (t, ''Positive'') = 0 \<and>
      count_list signals (t, ''Negative'') = 0)"
proof (induction signals d rule: count_signals.induct)
  case (1 d)
  show ?case by simp
next
  case (2 ticker sentiment signals d)
  then show ?case by (auto simp: update_conv')
qed

lemma keep_nonzero_distinct:
  "distinct (map fst acc) \<Longrightarrow> distinct (map fst (keep_nonzero items acc))"
  by (induction items acc rule: keep_nonzero.induct) (simp_all add: distinct_update)

lemma keep_nonzero_lookup:
  "distinct (map fst items) \<Longrightarrow>
   map_of (keep_nonzero items acc) t =
     (case map_of items t of
        None \<Rightarrow> map_of acc t
      | Some s \<Rightarrow>
          if positive s - negative s \<noteq> 0
          then Some \<lparr>positive = positive s, negative = negative s,
                     net_score = positive s - negative s\<rparr>
          else map_of acc t)"
proof (induction items acc rule: keep_nonzero.induct)
  case (1 acc)
  show ?case by simp
next
  case (2 ticker s items acc)
  then have notin: "map_of items ticker = None"
    by (simp add: map_of_eq_None_iff)
  from 2 show ?case
    using notin by (auto simp: update_conv' split: option.splits)
qed

text \<open>
  C2: \<^verbatim>\<open>score_tickers\<close> returns a mapping (no ticker twice) in which a ticker has an
  entry exactly when its Positive and Negative signals differ in number; the entry holds
  the number of its Positive signals, the number of its Negative signals and their
  difference as \<^verbatim>\<open>net_score\<close>. A ticker without signals, or with a net score of zero,
  is absent.
\<close>

theorem score_tickers_counts:
  "distinct (map fst (score_tickers signals)) \<and>
   map_of (score_tickers signals) ticker =
     (if int (count_list signals (ticker, ''Positive'')) - int (count_list signals (ticker, ''Negative'')) = 0
      then None
      else Some \<lparr>positive = int (count_list signals (ticker, ''Positive'')),
                  negative = int (count_list signals (ticker, ''Negative'')),
                  net_score = int (count_list signals (ticker, ''Positive''))
                              - int (count_list signals (ticker, ''Negative''))\<rparr>)"
proof -
  define d where "d = count_signals signals []"
  have dist: "distinct (map fst d)" unfolding d_def by (rule count_signals_distinct) simp
  have sc: "default_scores d ticker =
     \<lparr>positive = int (count_list signals (ticker, ''Positive'')),
      negative = int (count_list signals (ticker, ''Negative''))\<rparr>"
  proof -
    have "default_scores [] ticker = \<lparr>positive = 0, negative = 0\<rparr>"
      by (simp add: default_scores_def)
    then show ?thesis unfolding d_def by (simp add: count_signals_scores)
  qed
  have look: "map_of (score_tickers signals) ticker =
     (case map_of d ticker of
        None \<Rightarrow> None
      | Some s \<Rightarrow>
          if positive s - negative s \<noteq> 0
          then Some \<lparr>positive = positive s, negative = negative s,
                     net_score = positive s - negative s\<rparr>
          else None)"
    using keep_nonzero_lookup [OF dist, of "[]" ticker]
    by (simp add: score_tickers_def d_def split: option.splits)
  have "distinct (map fst (score_tickers signals))"
    unfolding score_tickers_def by (rule keep_nonzero_distinct) simp
  moreover have "map_of (score_tickers signals) ticker =
     (if int (count_list signals (ticker, ''Positive'')) - int (count_list signals (ticker, ''Negative'')) = 0
      then None
      else Some \<lparr>positive = int (count_list signals (ticker, ''Positive'')),
                  negative = int (count_list signals (ticker, ''Negative'')),
                  net_score = int (count_list signals (ticker, ''Positive''))
                              - int (count_list signals (ticker, ''Negative''))\<rparr>)"
  proof (cases "map_of d ticker")
    case None
    then have "count_list signals (ticker, ''Positive'') = 0 \<and>
               count_list signals (ticker, ''Negative'') = 0"
      unfolding d_def by (simp add: count_signals_keys)
    with None look show ?thesis by simp
  next
    case (Some s)
    with sc have "s = \<lparr>positive = int (count_list signals (ticker, ''Positive'')),
      negative = int (count_list signals (ticker, ''Negative''))\<rparr>"
      by (simp add: default_scores_def)
    with Some look show ?thesis by simp
  qed
  ultimately show ?thesis by simp
qed

theorem score_tickers_counts_witness:
  "distinct (map fst (score_tickers example_signals_list)) \<and>
   map_of (score_tickers example_signals_list) ''AAPL''
     = Some \<lparr>positive = 2, negative = 1, net_score = 1\<rparr> \<and>
   map_of (score_tickers example_signals_list) ''MSFT'' = None"
  using score_tickers_counts [of example_signals_list "''AAPL''"]
    score_tickers_counts [of example_signals_list "''MSFT''"]
  by (simp add: example_signals_list_def)

section \<open>The ranked view\<close>

lemma sorted_rev_neg:
  "sorted (map (\<lambda>x. - f x) ys) \<Longrightarrow> sorted (rev (map f ys))" for f :: "'a \<Rightarrow> int"
  by (induction ys) (auto simp: sorted_append)

lemma stable_sort_values_sorts: "sorts_by_net_score stable_sort_values"
proof -
  have "sorted (rev (map (\<lambda>r. net_score (snd r)) (sort_key (\<lambda>r. - net_score (snd r)) rows)))"
    for rows :: "row list"
    by (rule sorted_rev_neg) (rule sorted_sort_key)
  then show ?thesis
    by (simp add: sorts_by_net_score_def stable_sort_values_def)
qed

lemma reversed_sort_values_sorts: "sorts_by_net_score reversed_sort_values"
proof -
  have "mset (stable_sort_values asc (rev rows)) = mset rows" for asc and rows :: "row list"
    by (simp add: stable_sort_values_def)
  moreover have "sorted (map (\<lambda>r. net_score (snd r)) (stable_sort_values True (rev rows)))"
    for rows :: "row list"
    using stable_sort_values_sorts by (simp add: sorts_by_net_score_def)
  moreover have "sorted (rev (map (\<lambda>r. net_score (snd r)) (stable_sort_values False (rev rows))))"
    for rows :: "row list"
    using stable_sort_values_sorts by (simp add: sorts_by_net_score_def)
  ultimately show ?thesis
    by (simp add: sorts_by_net_score_def reversed_sort_values_def)
qed

text \<open>
  C9, as stated: the ranked view orders entries of equal net score by a deterministic
  tie-break. The code names none: \<^verbatim>\<open>sort_values(by='net_score')\<close> is called with the one
  key and pandas' default sort, which promises nothing for equal keys. Two sorts that both
  return their rows sorted by \<^verbatim>\<open>net_score\<close> give the two tickers of equal net score in
  opposite orders, so the order of ties is not fixed by what the code asks for.
\<close>

theorem ranked_view_ties_counterexample:
  "sorts_by_net_score stable_sort_values \<and>
   sorts_by_net_score reversed_sort_values \<and>
   map fst (bullish_df stable_sort_values tied_df) = [''AAA'', ''BBB''] \<and>
   map fst (bullish_df reversed_sort_values tied_df) = [''BBB'', ''AAA'']"
proof -
  have a: "map fst (bullish_df stable_sort_values tied_df) = [''AAA'', ''BBB'']"
    by (simp add: bullish_df_def stable_sort_values_def tied_df_def)
  have b: "map fst (bullish_df reversed_sort_values tied_df) = [''BBB'', ''AAA'']"
    by (simp add: bullish_df_def reversed_sort_values_def stable_sort_values_def tied_df_def)
  show ?thesis
    by (rule conjI [OF stable_sort_values_sorts conjI [OF reversed_sort_values_sorts conjI [OF a b]]])
qed

text \<open>
  C9, amended: for a mapping of scored tickers, all with a net score other than zero, and
  any \<^verbatim>\<open>sort_values\<close> that returns its rows sorted by \<^verbatim>\<open>net_score\<close>: the bullish list holds
  exactly the entries with a positive net score, highest first; the bearish list exactly
  those with a negative one, lowest first; the two lists together hold every entry once,
  and no ticker is in both. The order among entries of equal net score is left to
  \<^verbatim>\<open>sort_values\<close>; no tie-break is promised.
\<close>

theorem ranked_view_partition:
  assumes srt: "sorts_by_net_score sort_values"
    and nz: "\<forall>r \<in> set df. net_score (snd r) \<noteq> 0"
    and keys: "distinct (map fst df)"
  shows "mset (bullish_df sort_values df) = filter_mset (\<lambda>r. net_score (snd r) > 0) (mset df) \<and>
         sorted (rev (map (\<lambda>r. net_score (snd r)) (bullish_df sort_values df))) \<and>
         mset (bearish_df sort_values df) = filter_mset (\<lambda>r. net_score (snd r) < 0) (mset df) \<and>
         sorted (map (\<lambda>r. net_score (snd r)) (bearish_df sort_values df)) \<and>
         mset (bullish_df sort_values df) + mset (bearish_df sort_values df) = mset df \<and>
         fst ` set (bullish_df sort_values df) \<inter> fst ` set (bearish_df sort_values df) = {}"
proof -
  have bull: "mset (bullish_df sort_values df) = filter_mset (\<lambda>r. net_score (snd r) > 0) (mset df)"
    using srt by (simp add: sorts_by_net_score_def bullish_df_def)
  have bear: "mset (bearish_df sort_values df) = filter_mset (\<lambda>r. net_score (snd r) < 0) (mset df)"
    using srt by (simp add: sorts_by_net_score_def bearish_df_def)
  have s1: "sorted (rev (map (\<lambda>r. net_score (snd r)) (bullish_df sort_values df)))"
    using srt by (simp add: sorts_by_net_score_def bullish_df_def)
  have s2: "sorted (map (\<lambda>r. net_score (snd r)) (bearish_df sort_values df))"
    using srt by (simp add: sorts_by_net_score_def bearish_df_def)
  have "filter_mset (\<lambda>r. net_score (snd r) < 0) (mset df)
          = filter_mset (\<lambda>r. \<not> net_score (snd r) > 0) (mset df)"
    using nz by (intro filter_mset_cong) auto
  then have all: "mset (bullish_df sort_values df) + mset (bearish_df sort_values df) = mset df"
    by (simp add: bull bear)
  have sb: "set (bullish_df sort_values df) = {r \<in> set df. net_score (snd r) > 0}"
    using bull by (metis set_mset_filter set_mset_mset)
  have sr: "set (bearish_df sort_values df) = {r \<in> set df. net_score (snd r) < 0}"
    using bear by (metis set_mset_filter set_mset_mset)
  have disj: "fst ` set (bullish_df sort_values df) \<inter> fst ` set (bearish_df sort_values df) = {}"
  proof (rule ccontr)
    assume "\<not> ?thesis"
    then obtain r r' where r: "r \<in> set df" "net_score (snd r) > 0"
      and r': "r' \<in> set df" "net_score (snd r') < 0" and eq: "fst r = fst r'"
      unfolding sb sr by auto
    from keys r(1) r'(1) eq have "r = r'" by (metis eq_key_imp_eq_value prod.collapse)
    with r r' show False by simp
  qed
  from bull s1 bear s2 all disj show ?thesis by simp
qed

theorem ranked_view_partition_witness:
  "sorts_by_net_score stable_sort_values \<and>
   list_all (\<lambda>r. net_score (snd r) \<noteq> 0) example_df \<and>
   distinct (map fst example_df) \<and>
   mset (bullish_df stable_sort_values example_df)
     = filter_mset (\<lambda>r. net_score (snd r) > 0) (mset example_df) \<and>
   sorted (rev (map (\<lambda>r. net_score (snd r)) (bullish_df stable_sort_values example_df))) \<and>
   mset (bearish_df stable_sort_values example_df)
     = filter_mset (\<lambda>r. net_score (snd r) < 0) (mset example_df) \<and>
   sorted (map (\<lambda>r. net_score (snd r)) (bearish_df stable_sort_values example_df)) \<and>
   mset (bullish_df stable_sort_values example_df) + mset (bearish_df stable_sort_values example_df)
     = mset example_df \<and>
   fst ` set (bullish_df stable_sort_values example_df)
     \<inter> fst ` set (bearish_df stable_sort_values example_df) = {}"
proof -
  have h2: "\<forall>r \<in> set example_df. net_score (snd r) \<noteq> 0" by (simp add: example_df_def)
  have l2: "list_all (\<lambda>r. net_score (snd r) \<noteq> 0) example_df" by (simp add: example_df_def)
  have h3: "distinct (map fst example_df)" by (simp add: example_df_def)
  show ?thesis
    by (rule conjI [OF stable_sort_values_sorts conjI [OF l2 conjI [OF h3
          ranked_view_partition [OF stable_sort_values_sorts h2 h3]]]])
qed

lemma example_ranking:
  "map fst (bullish_df stable_sort_values example_df) = [''A'', ''C''] \<and>
   map fst (bearish_df stable_sort_values example_df) = [''B'']"
  by (simp add: bullish_df_def bearish_df_def stable_sort_values_def example_df_def)

section \<open>De-duplication\<close>

lemma dedupe_loop_first_seen:
  assumes "\<forall>a \<in> set articles. url_of a \<noteq> None"
  shows "dedupe_loop articles unique seen =
           Inr (unique @ first_seen (Some ` seen) articles)"
  using assms
proof (induction articles arbitrary: unique seen)
  case Nil
  show ?case by simp
next
  case (Cons a articles)
  from Cons.prems obtain url key where u: "py_getitem a ''url'' = Inr url"
    and k: "py_hash_key url = Inr key" and uk: "url_of a = Some key"
    by (auto simp: url_of_def split: sum.splits)
  from Cons.prems have rest: "\<forall>a \<in> set articles. url_of a \<noteq> None" by simp
  show ?case
    using u k uk Cons.IH [OF rest] by (auto simp: image_iff)
qed

lemma first_seen_subseq: "subseq (first_seen seen as) as"
  by (induction as arbitrary: seen) auto

lemma first_seen_keys:
  "url_of ` set (first_seen seen as) = url_of ` set as - seen"
  by (induction as arbitrary: seen) auto

lemma first_seen_distinct: "distinct (map url_of (first_seen seen as))"
proof (induction as arbitrary: seen)
  case Nil
  show ?case by simp
next
  case (Cons a as)
  have "url_of a \<notin> url_of ` set (first_seen (insert (url_of a) seen) as)"
    by (simp add: first_seen_keys)
  with Cons show ?case by auto
qed

lemma first_seen_first:
  "b \<in> set (first_seen seen as) \<Longrightarrow> find (\<lambda>a. url_of a = url_of b) as = Some b"
proof (induction as arbitrary: seen)
  case Nil
  then show ?case by simp
next
  case (Cons a as)
  show ?case
  proof (cases "url_of a \<in> seen")
    case True
    with Cons.prems have b: "b \<in> set (first_seen seen as)" by simp
    then have "url_of b \<in> url_of ` set (first_seen seen as)" by (rule imageI)
    then have "url_of b \<notin> seen" by (simp add: first_seen_keys)
    with True have "url_of a \<noteq> url_of b" by auto
    with Cons.IH [OF b] show ?thesis by simp
  next
    case False
    with Cons.prems have "b = a \<or> b \<in> set (first_seen (insert (url_of a) seen) as)" by simp
    then show ?thesis
    proof
      assume "b = a"
      then show ?thesis by simp
    next
      assume b: "b \<in> set (first_seen (insert (url_of a) seen) as)"
      then have "url_of b \<in> url_of ` set (first_seen (insert (url_of a) seen) as)" by (rule imageI)
      then have "url_of a \<noteq> url_of b" by (auto simp: first_seen_keys)
      with Cons.IH [OF b] show ?thesis by simp
    qed
  qed
qed

text \<open>
  C7: for every sequence of articles (each a dict with a hashable \<^verbatim>\<open>url\<close>), the
  de-duplication keeps the first occurrence of each url and drops the later ones: no two
  entries of the output share a url, the output is a subsequence of the input (each entry
  is an input article, in the input's order), every url of the input is kept, and each
  entry is the first article of the input with its url.
\<close>

theorem dedupe_first_occurrences:
  assumes "\<forall>a \<in> set articles. url_of a \<noteq> None"
  shows "\<exists>unique. dedupe articles = Inr unique \<and>
           distinct (map url_of unique) \<and>
           subseq unique articles \<and>
           url_of ` set unique = url_of ` set articles \<and>
           (\<forall>b \<in> set unique. find (\<lambda>a. url_of a = url_of b) articles = Some b)"
proof -
  have "dedupe articles = Inr (first_seen {} articles)"
    using dedupe_loop_first_seen [OF assms, of "[]" "{}"] by (simp add: dedupe_def)
  moreover have "distinct (map url_of (first_seen {} articles))" by (rule first_seen_distinct)
  moreover have "subseq (first_seen {} articles) articles" by (rule first_seen_subseq)
  moreover have "url_of ` set (first_seen {} articles) = url_of ` set articles"
    by (simp add: first_seen_keys)
  moreover have "\<forall>b \<in> set (first_seen {} articles).
      find (\<lambda>a. url_of a = url_of b) articles = Some b"
    by (simp add: first_seen_first)
  ultimately show ?thesis by blast
qed

theorem dedupe_first_occurrences_witness:
  "list_all (\<lambda>a. url_of a \<noteq> None) example_fetched \<and>
   (\<exists>unique. dedupe example_fetched = Inr unique \<and>
      distinct (map url_of unique) \<and>
      subseq unique example_fetched \<and>
      url_of ` set unique = url_of ` set example_fetched \<and>
      (\<forall>b \<in> set unique. find (\<lambda>a. url_of a = url_of b) example_fetched = Some b))"
proof -
  have h: "\<forall>a \<in> set example_fetched. url_of a \<noteq> None"
    by (simp add: example_fetched_def url_of_def)
  have l: "list_all (\<lambda>a. url_of a \<noteq> None) example_fetched"
    using h by (simp add: list_all_iff)
  show ?thesis by (rule conjI [OF l dedupe_first_occurrences [OF h]])
qed

lemma example_dedupe: "dedupe example_fetched = Inr (take 2 example_fetched)"
  by (simp add: dedupe_def example_fetched_def)

section \<open>Preprocessing\<close>

lemma clean_empty: "clean_article_content [] = []"
  by (simp add: clean_article_content_def py_strip_def)

lemma preprocess_article_dict:
  assumes "is_dict a"
  shows "preprocess_article a = Inr (if has_text a then Some (with_cleaned a) else None)"
proof -
  from assms obtain items where a: "a = JObj items" by (cases a) auto
  show ?thesis
  proof (cases "map_of items ''content''")
    case None
    then show ?thesis
      by (simp add: a preprocess_article_def has_text_def content_text_def)
  next
    case (Some c)
    then show ?thesis
      by (cases c)
        (auto simp: a preprocess_article_def has_text_def content_text_def with_cleaned_def
           clean_empty Let_def)
  qed
qed

lemma preprocess_loop_dicts:
  "\<forall>a \<in> set articles. is_dict a \<Longrightarrow>
   preprocess_loop articles acc = Inr (acc @ map with_cleaned (filter has_text articles))"
  by (induction articles arbitrary: acc) (auto simp: preprocess_article_dict)

lemma with_cleaned_fields:
  assumes "has_text a"
  shows "\<exists>s. content_text a = Some s \<and> content_text (with_cleaned a) = Some s \<and>
             clean_article_content s \<noteq> [] \<and>
             py_getitem (with_cleaned a) ''cleaned_content'' = Inr (JStr (clean_article_content s))"
proof -
  from assms obtain s where s: "content_text a = Some s" and ne: "clean_article_content s \<noteq> []"
    by (auto simp: has_text_def split: option.splits)
  from s obtain items where a: "a = JObj items"
    by (cases a) (auto simp: content_text_def)
  from s a have w: "with_cleaned (JObj items) =
      JObj (AList.update ''cleaned_content'' (JStr (clean_article_content s)) items)"
    by (simp add: with_cleaned_def)
  from s a have c: "map_of items ''content'' = Some (JStr s)"
    by (auto simp: content_text_def split: option.splits json.splits)
  have "content_text (with_cleaned (JObj items)) = Some s"
    unfolding w using c by (simp add: content_text_def update_conv')
  moreover have "py_getitem (with_cleaned (JObj items)) ''cleaned_content''
                   = Inr (JStr (clean_article_content s))"
    unfolding w by (simp add: update_conv')
  ultimately show ?thesis using s ne unfolding a by simp
qed

text \<open>
  C8: for every sequence of articles (dicts), \<^verbatim>\<open>preprocess_articles\<close> returns, in order,
  exactly the articles whose \<^verbatim>\<open>content\<close> is present, a string, and not empty after
  normalization, each with \<^verbatim>\<open>cleaned_content\<close> set; no more articles than it was given;
  and the \<^verbatim>\<open>cleaned_content\<close> of each is the normalizer applied to its \<^verbatim>\<open>content\<close>, not
  empty.
\<close>

theorem preprocess_articles_keeps_text:
  assumes "\<forall>a \<in> set articles. is_dict a"
  shows "preprocess_articles articles = Inr (map with_cleaned (filter has_text articles)) \<and>
         length (map with_cleaned (filter has_text articles)) \<le> length articles \<and>
         list_all (\<lambda>a. \<exists>s. content_text a = Some s \<and> content_text (with_cleaned a) = Some s \<and>
                clean_article_content s \<noteq> [] \<and>
                py_getitem (with_cleaned a) ''cleaned_content''
                  = Inr (JStr (clean_article_content s)))
           (filter has_text articles)"
proof -
  have "preprocess_articles articles = Inr (map with_cleaned (filter has_text articles))"
    using preprocess_loop_dicts [OF assms, of "[]"] by (simp add: preprocess_articles_def)
  moreover have "length (map with_cleaned (filter has_text articles)) \<le> length articles"
    by simp
  moreover have "list_all (\<lambda>a. \<exists>s. content_text a = Some s \<and> content_text (with_cleaned a) = Some s \<and>
                clean_article_content s \<noteq> [] \<and>
                py_getitem (with_cleaned a) ''cleaned_content''
                  = Inr (JStr (clean_article_content s)))
           (filter has_text articles)"
    unfolding list_all_iff by (auto intro: with_cleaned_fields)
  ultimately show ?thesis by blast
qed

theorem preprocess_articles_keeps_text_witness:
  "list_all is_dict example_fetched \<and>
   preprocess_articles example_fetched = Inr (map with_cleaned (filter has_text example_fetched)) \<and>
   length (map with_cleaned (filter has_text example_fetched)) \<le> length example_fetched \<and>
   list_all (\<lambda>a. \<exists>s. content_text a = Some s \<and> content_text (with_cleaned a) = Some s \<and>
                clean_article_content s \<noteq> [] \<and>
                py_getitem (with_cleaned a) ''cleaned_content''
                  = Inr (JStr (clean_article_content s)))
           (filter has_text example_fetched)"
proof -
  have h: "\<forall>a \<in> set example_fetched. is_dict a" by (simp add: example_fetched_def)
  have l: "list_all is_dict example_fetched" by (simp add: example_fetched_def)
  show ?thesis by (rule conjI [OF l preprocess_articles_keeps_text [OF h]])
qed

lemma example_preprocess:
  "preprocess_articles example_fetched =
     Inr [JObj [(''title'', JStr ''First''), (''url'', JStr ''https://example.com/a''),
                (''content'', JStr ''Stocks   rallied today [+123 chars]''),
                (''cleaned_content'', JStr ''Stocks rallied today'')]]"
  by code_simp

section \<open>The analysis pipeline\<close>

lemma analyze_article_titled:
  assumes "titled article"
  shows "analyze_article E a h article =
           (Inr (annotated E a h article), requests_of E a h article)"
proof -
  from assms obtain items t where art: "article = JObj items"
    and title: "map_of items ''title'' = Some (JStr t)"
    by (cases article) (auto split: option.splits json.splits)
  show ?thesis
  proof (cases "map_of items ''cleaned_content''")
    case None
    with title show ?thesis
      by (simp add: art analyze_article_def annotated_def requests_of_def oracle_outcome_def
            error_object_def)
  next
    case (Some content)
    obtain r h' where an: "analyze E a h content = (r, h')" by (cases "analyze E a h content")
    with title Some show ?thesis
      by (cases r)
        (simp_all add: art analyze_article_def annotated_def requests_of_def oracle_outcome_def
           error_object_def)
  qed
qed

lemma analysis_loop_titled:
  assumes "\<forall>article \<in> set articles. titled article"
  shows "\<exists>out. analysis_loop E a articles acc h = (Inr (acc @ out), history_after E a h articles) \<and>
           length out = length articles \<and>
           (\<forall>i < length articles.
              out ! i = annotated E a (history_after E a h (take i articles)) (articles ! i))"
  using assms
proof (induction articles arbitrary: acc h)
  case Nil
  show ?case by simp
next
  case (Cons article articles)
  define h1 where "h1 = requests_of E a h article"
  define art' where "art' = annotated E a h article"
  from Cons.prems have step: "analyze_article E a h article = (Inr art', h1)"
    by (simp add: analyze_article_titled h1_def art'_def)
  from Cons.prems have rest: "\<forall>article \<in> set articles. titled article" by simp
  from Cons.IH [OF rest, of "acc @ [art']" h1] obtain out where
    run: "analysis_loop E a articles (acc @ [art']) h1 =
            (Inr ((acc @ [art']) @ out), history_after E a h1 articles)"
    and len: "length out = length articles"
    and nth: "\<forall>i < length articles.
              out ! i = annotated E a (history_after E a h1 (take i articles)) (articles ! i)"
    by blast
  have "analysis_loop E a (article # articles) acc h =
          (Inr (acc @ art' # out), history_after E a h (article # articles))"
    using step run by (simp add: h1_def)
  moreover have "length (art' # out) = length (article # articles)" using len by simp
  moreover have "\<forall>i < length (article # articles).
      (art' # out) ! i =
        annotated E a (history_after E a h (take i (article # articles))) ((article # articles) ! i)"
  proof (intro allI impI)
    fix i assume i: "i < length (article # articles)"
    show "(art' # out) ! i =
        annotated E a (history_after E a h (take i (article # articles))) ((article # articles) ! i)"
    proof (cases i)
      case 0
      then show ?thesis by (simp add: art'_def)
    next
      case (Suc j)
      with i nth show ?thesis by (simp add: h1_def)
    qed
  qed
  ultimately show ?case by blast
qed

text \<open>
  C5: in \<^verbatim>\<open>run_analysis_pipeline\<close>, for a batch of articles (dicts with a string title) and
  an analyzer that could be built, the run returns True and writes one entry per input
  article, in input order: the article with \<^verbatim>\<open>analysis\<close> set to what the oracle returned
  for it, or to \<^verbatim>\<open>{"error": message}\<close> when the oracle call (or the read of
  \<^verbatim>\<open>cleaned_content\<close>) raised. The entry of an article depends on that article and on
  the outcome of its own call only, so a failure for one article changes no other entry
  and does not end the run.
\<close>

theorem analysis_failures_isolated:
  assumes pre: "files w PREPROCESSED_FILE = Some (Inr (JList articles))"
    and cfg: "get_analyzer llm_provider api_key model_name = Inr a"
    and titles: "\<forall>article \<in> set articles. titled article"
  shows "\<exists>analyzed.
           run_analysis_pipeline E llm_provider api_key model_name w =
             (Inr True,
              w\<lparr>files := (files w)(ANALYZED_FILE \<mapsto> Inr (JList analyzed)),
                requests := history_after E a (requests w) articles\<rparr>) \<and>
           length analyzed = length articles \<and>
           (\<forall>i < length articles. \<exists>items.
              articles ! i = JObj items \<and>
              analyzed ! i =
                JObj (AList.update ''analysis''
                  (case oracle_outcome E a (history_after E a (requests w) (take i articles))
                          (articles ! i) of
                     Inl e \<Rightarrow> JObj [(''error'', JStr (str_exn e))]
                   | Inr result \<Rightarrow> result)
                  items))"
proof -
  from analysis_loop_titled [OF titles, of E a "[]" "requests w"] obtain out where
    run: "analysis_loop E a articles [] (requests w) =
            (Inr out, history_after E a (requests w) articles)"
    and len: "length out = length articles"
    and nth: "\<forall>i < length articles.
              out ! i = annotated E a (history_after E a (requests w) (take i articles)) (articles ! i)"
    by auto
  have "run_analysis_pipeline E llm_provider api_key model_name w =
             (Inr True,
              w\<lparr>files := (files w)(ANALYZED_FILE \<mapsto> Inr (JList out)),
                requests := history_after E a (requests w) articles\<rparr>)"
    using pre cfg run by (simp add: run_analysis_pipeline_def)
  moreover have "\<forall>i < length articles. \<exists>items.
              articles ! i = JObj items \<and>
              out ! i =
                JObj (AList.update ''analysis''
                  (case oracle_outcome E a (history_after E a (requests w) (take i articles))
                          (articles ! i) of
                     Inl e \<Rightarrow> JObj [(''error'', JStr (str_exn e))]
                   | Inr result \<Rightarrow> result)
                  items)"
  proof (intro allI impI)
    fix i assume i: "i < length articles"
    with titles have "titled (articles ! i)" by simp
    then obtain items where it: "articles ! i = JObj items" by (cases "articles ! i") auto
    from nth i have "out ! i =
        annotated E a (history_after E a (requests w) (take i articles)) (articles ! i)"
      by simp
    with it show "\<exists>items.
              articles ! i = JObj items \<and>
              out ! i =
                JObj (AList.update ''analysis''
                  (case oracle_outcome E a (history_after E a (requests w) (take i articles))
                          (articles ! i) of
                     Inl e \<Rightarrow> JObj [(''error'', JStr (str_exn e))]
                   | Inr result \<Rightarrow> result)
                  items)"
      by (simp add: annotated_def)
  qed
  ultimately show ?thesis using len by blast
qed


theorem analysis_failures_isolated_witness:
  "files example_world PREPROCESSED_FILE = Some (Inr (JList example_cleaned)) \<and>
   get_analyzer ''Ollama'' None None = Inr (OllamaAnalyzer ''llama3.1'') \<and>
   list_all titled example_cleaned \<and>
   (\<exists>analyzed.
      run_analysis_pipeline example_env ''Ollama'' None None example_world =
        (Inr True,
         example_world\<lparr>files := (files example_world)(ANALYZED_FILE \<mapsto> Inr (JList analyzed)),
           requests := history_after example_env (OllamaAnalyzer ''llama3.1'')
                         (requests example_world) example_cleaned\<rparr>) \<and>
      length analyzed = length example_cleaned \<and>
      (\<forall>i < length example_cleaned. \<exists>items.
         example_cleaned ! i = JObj items \<and>
         analyzed ! i =
           JObj (AList.update ''analysis''
             (case oracle_outcome example_env (OllamaAnalyzer ''llama3.1'')
                     (history_after example_env (OllamaAnalyzer ''llama3.1'')
                        (requests example_world) (take i example_cleaned))
                     (example_cleaned ! i) of
                Inl e \<Rightarrow> JObj [(''error'', JStr (str_exn e))]
              | Inr result \<Rightarrow> result)
             items)))"
proof -
  have h1: "files example_world PREPROCESSED_FILE = Some (Inr (JList example_cleaned))"
    by (simp add: example_world_def)
  have h2: "get_analyzer ''Ollama'' None None = Inr (OllamaAnalyzer ''llama3.1'')"
    by (simp add: get_analyzer_def or_default_def)
  have h3: "\<forall>article \<in> set example_cleaned. titled article"
    by (simp add: example_cleaned_def)
  have l3: "list_all titled example_cleaned" by (simp add: example_cleaned_def)
  show ?thesis
    by (rule conjI [OF h1 conjI [OF h2 conjI [OF l3
          analysis_failures_isolated [OF h1 h2 h3, of example_env]]]])
qed





text \<open>
  C4, as stated: \<^verbatim>\<open>analyze\<close> always returns a Success or a Failure and never raises; a
  response that does not parse becomes a Failure inside \<^verbatim>\<open>analyze\<close>. It does not: for a
  response that is not JSON, \<^verbatim>\<open>analyze\<close> raises the exception of \<^verbatim>\<open>json.loads\<close>.
\<close>

theorem analyze_raises_counterexample:
  "fst (analyze example_env (OllamaAnalyzer ''llama3.1'') [] (JStr ''Stocks rallied today''))
     = Inl (Exn OtherError ''Expecting value: line 1 column 1 (char 0)'')"
  by (simp add: example_env_def format_prompt_def)

lemma analyze_result:
  "fst (analyze E a h content) =
     (case provider E a h (request_text E a content) of
        Inl e \<Rightarrow> Inl e
      | Inr text \<Rightarrow> json_loads E (response_text a text))"
  by (cases a) (simp_all add: request_text_def response_text_def Let_def split: sum.splits)

text \<open>
  C4, amended: \<^verbatim>\<open>analyze\<close> returns what \<^verbatim>\<open>json.loads\<close> makes of the provider's response
  (for Gemini, of the stripped response without its code fences) and raises what the
  provider call or \<^verbatim>\<open>json.loads\<close> raises; it converts nothing. The conversion is the
  caller's: for an article with a title and a \<^verbatim>\<open>cleaned_content\<close>, the loop body of
  \<^verbatim>\<open>run_analysis_pipeline\<close> stores the value returned, or \<^verbatim>\<open>{"error": message}\<close> for the
  exception raised, as the article's \<^verbatim>\<open>analysis\<close>.
\<close>

theorem analyze_raises_pipeline_catches:
  assumes "titled (JObj items)"
    and "map_of items ''cleaned_content'' = Some content"
  shows "fst (analyze E a h content) =
           (case provider E a h (request_text E a content) of
              Inl e \<Rightarrow> Inl e
            | Inr text \<Rightarrow> json_loads E (response_text a text)) \<and>
         fst (analyze_article E a h (JObj items)) =
           Inr (JObj (AList.update ''analysis''
                  (case fst (analyze E a h content) of
                     Inl e \<Rightarrow> JObj [(''error'', JStr (str_exn e))]
                   | Inr result \<Rightarrow> result)
                  items))"
proof -
  have "fst (analyze_article E a h (JObj items)) = Inr (annotated E a h (JObj items))"
    using assms(1) by (simp add: analyze_article_titled)
  also have "annotated E a h (JObj items) =
      JObj (AList.update ''analysis''
                  (case fst (analyze E a h content) of
                     Inl e \<Rightarrow> JObj [(''error'', JStr (str_exn e))]
                   | Inr result \<Rightarrow> result)
                  items)"
    using assms(2) by (simp add: annotated_def oracle_outcome_def)
  finally show ?thesis using analyze_result by simp
qed

theorem analyze_raises_pipeline_catches_witness:
  "titled (JObj example_items) \<and>
   map_of example_items ''cleaned_content'' = Some (JStr ''Stocks rallied today'') \<and>
   fst (analyze example_env (OllamaAnalyzer ''llama3.1'') [] (JStr ''Stocks rallied today'')) =
           (case provider example_env (OllamaAnalyzer ''llama3.1'') []
                   (request_text example_env (OllamaAnalyzer ''llama3.1'') (JStr ''Stocks rallied today'')) of
              Inl e \<Rightarrow> Inl e
            | Inr text \<Rightarrow> json_loads example_env (response_text (OllamaAnalyzer ''llama3.1'') text)) \<and>
   fst (analyze_article example_env (OllamaAnalyzer ''llama3.1'') [] (JObj example_items)) =
           Inr (JObj (AList.update ''analysis''
                  (case fst (analyze example_env (OllamaAnalyzer ''llama3.1'') [] (JStr ''Stocks rallied today'')) of
                     Inl e \<Rightarrow> JObj [(''error'', JStr (str_exn e))]
                   | Inr result \<Rightarrow> result)
                  example_items))"
proof -
  have h1: "titled (JObj example_items)" by (simp add: example_items_def)
  have h2: "map_of example_items ''cleaned_content'' = Some (JStr ''Stocks rallied today'')"
    by (simp add: example_items_def)
  show ?thesis
    by (rule conjI [OF h1 conjI [OF h2 analyze_raises_pipeline_catches [OF h1 h2]]])
qed

end
